theory Spec2Isabelle
  imports Main "HOL-Library.AList"
begin

section \<open>Location names and visitor method names\<close>

text \<open>
  \<^verbatim>\<open>directiveLocationToVisitorMethodName\<close> (SchemaDirectiveVisitor.ts, end of file) turns a
  directive location such as \<^verbatim>\<open>FIELD_DEFINITION\<close> into \<^verbatim>\<open>visitFieldDefinition\<close>:
  \<^verbatim>\<open>
  'visit' + loc.replace(/([^_]*)_?/g, (_wholeMatch, part) =>
      part.charAt(0).toUpperCase() + part.slice(1).toLowerCase())
  \<close>
  A \<^verbatim>\<open>DirectiveLocationEnum\<close> value is, at run time, the string of its own name, so the
  function is modelled on strings. Location names are ASCII; \<^verbatim>\<open>toUpperCase\<close> and
  \<^verbatim>\<open>toLowerCase\<close> are modelled on the ASCII letters and leave every other character alone.
\<close>

definition toUpperCase :: "char \<Rightarrow> char" where
  "toUpperCase c =
     (let n = (of_char c :: nat) in if 97 \<le> n \<and> n \<le> 122 then char_of (n - 32) else c)"

definition toLowerCase :: "char \<Rightarrow> char" where
  "toLowerCase c =
     (let n = (of_char c :: nat) in if 65 \<le> n \<and> n \<le> 90 then char_of (n + 32) else c)"

text \<open>The replacement callback: \<^verbatim>\<open>part.charAt(0).toUpperCase() + part.slice(1).toLowerCase()\<close>.
  On the empty string \<^verbatim>\<open>charAt(0)\<close> and \<^verbatim>\<open>slice(1)\<close> are both empty.\<close>

fun replacePart :: "string \<Rightarrow> string" where
  "replacePart [] = []"
| "replacePart (c # cs) = toUpperCase c # map toLowerCase cs"

text \<open>
  \<^verbatim>\<open>loc.replace(/([^_]*)_?/g, f)\<close>: starting at the current position the pattern always
  matches, taking the longest run of characters other than the underscore (the captured
  part) and then one underscore if there is one. A match that is not empty moves the
  position behind itself. At the end of the input the pattern matches the empty string
  once more (the callback then yields the empty string) and the scan stops. Every
  character belongs to some match, so the result is the concatenation of the
  replacements.
\<close>

function replaceAll :: "string \<Rightarrow> string" where
  "replaceAll s =
     (let part = takeWhile (\<lambda>c. c \<noteq> CHR ''_'') s;
          rest = dropWhile (\<lambda>c. c \<noteq> CHR ''_'') s
      in if s = [] then replacePart part
         else replacePart part @ replaceAll (case rest of [] \<Rightarrow> [] | u # r \<Rightarrow> r))"
  by pat_completeness auto
termination
proof (relation "measure length")
  show "wf (measure length)" by simp
next
  fix s :: string and part rest
  assume r: "rest = dropWhile (\<lambda>c. c \<noteq> CHR ''_'') s" and ne: "s \<noteq> []"
  have "length rest \<le> length s"
    unfolding r by (rule length_dropWhile_le)
  then have "length (case rest of [] \<Rightarrow> [] | u # r \<Rightarrow> r) < length s"
    using ne by (cases rest) auto
  then show "((case rest of [] \<Rightarrow> [] | u # r \<Rightarrow> r), s) \<in> measure length"
    by simp
qed

definition directiveLocationToVisitorMethodName :: "string \<Rightarrow> string" where
  "directiveLocationToVisitorMethodName loc = ''visit'' @ replaceAll loc"

subsection \<open>The mapping as the specification words it\<close>

text \<open>
  The specification describes the same function as: split the symbolic name on its
  separator, title-case each segment, concatenate, and put \<^verbatim>\<open>visit\<close> in front. These
  definitions follow those words, to be compared with the function above.
\<close>

fun splitOn :: "char \<Rightarrow> string \<Rightarrow> string list" where
  "splitOn sep [] = [[]]"
| "splitOn sep (c # cs) =
     (if c = sep then [] # splitOn sep cs
      else (case splitOn sep cs of [] \<Rightarrow> [[c]] | p # ps \<Rightarrow> (c # p) # ps))"

definition titleCase :: "string \<Rightarrow> string" where
  "titleCase seg = (case seg of [] \<Rightarrow> [] | c # cs \<Rightarrow> toUpperCase c # map toLowerCase cs)"

definition spec_methodName :: "string \<Rightarrow> string" where
  "spec_methodName loc = ''visit'' @ concat (map titleCase (splitOn (CHR ''_'') loc))"

section \<open>Schema, declarations and syntax nodes\<close>

text \<open>
  What the dispatch code reads of the objects it is given. A \<^verbatim>\<open>GraphQLDirective\<close> has a
  name, its legal locations and its argument definitions; the argument definitions are
  only ever handed to \<^verbatim>\<open>getArgumentValues\<close>, so their type is left open. A schema is read
  through \<^verbatim>\<open>getDirectives()\<close>, the list of its directive declarations, and
  \<^verbatim>\<open>getDirective(name)\<close>, which the graphql library defines as the first declaration of
  that list with the name.

  The exceptions of the model: the \<^verbatim>\<open>Error\<close> that \<^verbatim>\<open>getDeclaredDirectives\<close> throws for a
  missing visitor method (directive name, method name), the TypeError of reading a
  property of \<^verbatim>\<open>undefined\<close>, and what the functions taken as parameters may throw.
\<close>

datatype error =
    MissingVisitorMethod string string
  | TypeError
  | GraphQLError string
  | ConversionError string
  | HandlerError string

record 'ad GraphQLDirective =
  d_name :: string
  d_locations :: "string list"
  d_args :: 'ad

record 'ad GraphQLSchema =
  getDirectives :: "'ad GraphQLDirective list"

definition getDirective :: "'ad GraphQLSchema \<Rightarrow> string \<Rightarrow> 'ad GraphQLDirective option" where
  "getDirective schema directiveName =
     find (\<lambda>directive. d_name directive = directiveName) (getDirectives schema)"

text \<open>
  Syntax nodes. \<^verbatim>\<open>directives\<close> and \<^verbatim>\<open>arguments\<close> are optional properties of their
  nodes, and \<^verbatim>\<open>astNode\<close> and \<^verbatim>\<open>extensionASTNodes\<close> are optional properties of a schema
  element; \<open>None\<close> stands for \<^verbatim>\<open>undefined\<close> or \<^verbatim>\<open>null\<close>. The value of an argument is a
  literal node of the query language, whose type is left open. \<open>t_ref\<close> is the
  identity of the element object, which a visitor keeps as its \<^verbatim>\<open>visitedType\<close>.
\<close>

record 'vn ArgumentNode =
  a_name :: string
  a_value :: 'vn

record 'vn DirectiveNode =
  dn_name :: string
  dn_arguments :: "'vn ArgumentNode list option"

record 'vn ASTNode =
  directives :: "'vn DirectiveNode list option"

record 'vn VisitableSchemaType =
  t_ref :: nat
  astNode :: "'vn ASTNode option"
  extensionASTNodes :: "'vn ASTNode list option"

section \<open>Visitor classes and visitor instances\<close>

text \<open>
  A visitor class, as far as the dispatch code looks at it: the visitor methods it
  defines itself, and its static \<^verbatim>\<open>getDirectiveDeclaration\<close> when it overrides the
  inherited one.
\<close>

record 'ad visitorClass =
  vc_methods :: "string list"
  vc_getDirectiveDeclaration ::
    "(string \<Rightarrow> 'ad GraphQLSchema \<Rightarrow> 'ad GraphQLDirective option) option"

text \<open>
  Modelled from the spec: \<^verbatim>\<open>SchemaVisitor\<close> (./SchemaVisitor), the base class, is not
  among the sources. The specification (4.3) lists its handlers, one for each location,
  each a no-op by default.
\<close>

definition visitorMethods :: "string list" where
  "visitorMethods =
     [''visitSchema'', ''visitScalar'', ''visitObject'', ''visitFieldDefinition'',
      ''visitArgumentDefinition'', ''visitInterface'', ''visitUnion'', ''visitEnum'',
      ''visitEnumValue'', ''visitInputObject'', ''visitInputFieldDefinition'']"

text \<open>
  Modelled from the spec: \<^verbatim>\<open>SchemaVisitor.implementsVisitorMethod\<close> called on the base
  class itself, as \<^verbatim>\<open>getDeclaredDirectives\<close> does to ask whether a method name "is a real
  handler" (4.4): whether the name is one of the handlers of the base class.
\<close>

definition SchemaVisitor_implementsVisitorMethod :: "string \<Rightarrow> bool" where
  "SchemaVisitor_implementsVisitorMethod methodName = (methodName \<in> set visitorMethods)"

text \<open>
  Modelled from the spec: \<^verbatim>\<open>implementsVisitorMethod\<close> called on a visitor class reports
  whether the class's implementation of the method differs from the no-op default
  (4.3), that is, whether the class defines the method itself.
\<close>

definition implementsVisitorMethod :: "'ad visitorClass \<Rightarrow> string \<Rightarrow> bool" where
  "implementsVisitorMethod visitorClass methodName =
     (methodName \<in> set (vc_methods visitorClass))"

text \<open>
  \<^verbatim>\<open>getDirectiveDeclaration\<close>: the class's own hook, or the inherited one, which returns
  \<^verbatim>\<open>schema.getDirective(directiveName)\<close>.
\<close>

definition getDirectiveDeclaration ::
  "'ad visitorClass \<Rightarrow> string \<Rightarrow> 'ad GraphQLSchema \<Rightarrow> 'ad GraphQLDirective option" where
  "getDirectiveDeclaration visitorClass directiveName schema =
     (case vc_getDirectiveDeclaration visitorClass of
        None \<Rightarrow> getDirective schema directiveName
      | Some hook \<Rightarrow> hook directiveName schema)"

text \<open>
  A visitor instance and the constructor that fills it from its \<^verbatim>\<open>config\<close>. The context
  is held by reference: \<open>v_context\<close> is the address of the context object.
\<close>

record ('val, 'ad) visitorConfig =
  c_name :: string
  c_args :: "(string \<times> 'val) list"
  c_visitedType :: nat
  c_schema :: "'ad GraphQLSchema"
  c_context :: nat

record ('val, 'ad) SchemaDirectiveVisitor =
  v_name :: string
  v_args :: "(string \<times> 'val) list"
  v_visitedType :: nat
  v_schema :: "'ad GraphQLSchema"
  v_context :: nat

definition new_SchemaDirectiveVisitor ::
  "('val, 'ad) visitorConfig \<Rightarrow> ('val, 'ad) SchemaDirectiveVisitor" where
  "new_SchemaDirectiveVisitor config =
     \<lparr> v_name = c_name config,
       v_args = c_args config,
       v_visitedType = c_visitedType config,
       v_schema = c_schema config,
       v_context = c_context config \<rparr>"

section \<open>Objects as association lists\<close>

text \<open>
  An object used as a dictionary is an association list in the order of
  \<^verbatim>\<open>Object.keys\<close>; \<^verbatim>\<open>obj[key]\<close> is \<open>map_of obj key\<close>, \<^verbatim>\<open>hasOwn.call(obj, key)\<close> is
  whether that is \<open>Some\<close>, and \<^verbatim>\<open>obj[key] = v\<close> is \<open>AList.update key v obj\<close>, which
  replaces the value of a key already present and puts a new key last. (Keys are
  directive names, never integers in decimal, which \<^verbatim>\<open>Object.keys\<close> would put first.)
\<close>

text \<open>
  Modelled from the spec: \<^verbatim>\<open>each\<close> (./each) is not among the sources. The
  specification has the resolver go through every entry of a mapping (4.4: "for every
  (name, visitor class) pair in the input mapping"); \<open>entries\<close> lists the pairs
  \<open>(key, obj[key])\<close> for the keys in order, and a loop over an object is a loop over
  its entries.
\<close>

definition entries :: "(string \<times> 'a) list \<Rightarrow> (string \<times> 'a) list" where
  "entries obj =
     concat (map (\<lambda>key. case map_of obj key of None \<Rightarrow> [] | Some v \<Rightarrow> [(key, v)])
                 (map fst obj))"

text \<open>A loop whose body may throw: the first exception ends it.\<close>

fun forEachThrowing :: "('a \<Rightarrow> error option) \<Rightarrow> 'a list \<Rightarrow> error option" where
  "forEachThrowing body [] = None"
| "forEachThrowing body (x # xs) =
     (case body x of Some e \<Rightarrow> Some e | None \<Rightarrow> forEachThrowing body xs)"

section \<open>getDeclaredDirectives\<close>

text \<open>First loop: every declaration of the schema is recorded under its name.\<close>

definition seedDeclarations ::
  "'ad GraphQLDirective list \<Rightarrow> (string \<times> 'ad GraphQLDirective) list" where
  "seedDeclarations decls =
     fold (\<lambda>decl declaredDirectives. AList.update (d_name decl) decl declaredDirectives)
          decls []"

text \<open>Second loop: a declaration that a visitor class returns takes the place of the
  schema's.\<close>

definition overrideDeclarations ::
  "'ad GraphQLSchema \<Rightarrow> (string \<times> 'ad visitorClass) list \<Rightarrow>
   (string \<times> 'ad GraphQLDirective) list \<Rightarrow> (string \<times> 'ad GraphQLDirective) list" where
  "overrideDeclarations schema directiveVisitors declaredDirectives =
     fold (\<lambda>(directiveName, visitorClass) declared.
             case getDirectiveDeclaration visitorClass directiveName schema of
               None \<Rightarrow> declared
             | Some decl \<Rightarrow> AList.update directiveName decl declared)
          (entries directiveVisitors) declaredDirectives"

definition resolveDeclarations ::
  "'ad GraphQLSchema \<Rightarrow> (string \<times> 'ad visitorClass) list \<Rightarrow>
   (string \<times> 'ad GraphQLDirective) list" where
  "resolveDeclarations schema directiveVisitors =
     overrideDeclarations schema directiveVisitors
       (seedDeclarations (getDirectives schema))"

text \<open>Third loop: a declaration whose name has a visitor class is checked against the
  class, location by location; the first missing method is thrown.\<close>

definition checkLocation :: "string \<Rightarrow> 'ad visitorClass \<Rightarrow> string \<Rightarrow> error option" where
  "checkLocation name visitorClass loc =
     (let visitorMethodName = directiveLocationToVisitorMethodName loc
      in if SchemaVisitor_implementsVisitorMethod visitorMethodName \<and>
            \<not> implementsVisitorMethod visitorClass visitorMethodName
         then Some (MissingVisitorMethod name visitorMethodName)
         else None)"

definition checkDeclaration ::
  "(string \<times> 'ad visitorClass) list \<Rightarrow> string \<times> 'ad GraphQLDirective \<Rightarrow> error option" where
  "checkDeclaration directiveVisitors entry =
     (case entry of (name, decl) \<Rightarrow>
        (case map_of directiveVisitors name of
           None \<Rightarrow> None
         | Some visitorClass \<Rightarrow>
             forEachThrowing (checkLocation name visitorClass) (d_locations decl)))"

definition getDeclaredDirectives ::
  "'ad GraphQLSchema \<Rightarrow> (string \<times> 'ad visitorClass) list \<Rightarrow>
   error + (string \<times> 'ad GraphQLDirective) list" where
  "getDeclaredDirectives schema directiveVisitors =
     (let declaredDirectives = resolveDeclarations schema directiveVisitors
      in case forEachThrowing (checkDeclaration directiveVisitors)
                (entries declaredDirectives) of
           Some e \<Rightarrow> Inl e
         | None \<Rightarrow> Inr declaredDirectives)"

section \<open>visitSchemaDirectives\<close>

text \<open>
  Two functions that the selector calls are not among the sources and are taken as
  parameters: \<^verbatim>\<open>getArgumentValues\<close> of the graphql library, which coerces the argument
  nodes of an occurrence against a declaration or throws, and \<^verbatim>\<open>valueFromASTUntyped\<close>
  (./valueFromASTUntyped), which converts one literal node to a value or throws. An
  argument object is an association list from argument names to values. What the
  library's \<^verbatim>\<open>getArgumentValues\<close> computes is modelled further below, for the statements
  that depend on it.
\<close>

record ('vn, 'val, 'ad) library =
  getArgumentValues ::
    "'ad GraphQLDirective \<Rightarrow> 'vn DirectiveNode \<Rightarrow> error + (string \<times> 'val) list"
  valueFromASTUntyped :: "'vn \<Rightarrow> error + 'val"

text \<open>
  What a dispatch pass changes: the \<^verbatim>\<open>createdVisitors\<close> object, and, to speak about the
  order in which things happen, a log of the instances constructed and of the handler
  calls made on them.
\<close>

datatype ('val, 'ad) event =
    Constructed "('val, 'ad) SchemaDirectiveVisitor"
  | Invoked "('val, 'ad) SchemaDirectiveVisitor" string

record ('val, 'ad) dispatchState =
  createdVisitors :: "(string \<times> ('val, 'ad) SchemaDirectiveVisitor list) list"
  events :: "('val, 'ad) event list"

subsection \<open>The directive nodes of an element\<close>

text \<open>
  \<^verbatim>\<open>
  let directiveNodes = type.astNode != null ? type.astNode.directives : [];
  if (extensionASTNodes != null) {
    extensionASTNodes.forEach(extensionASTNode => {
      directiveNodes = directiveNodes.concat(extensionASTNode.directives); }); }
  \<close>
  \<^verbatim>\<open>concat\<close> appends the elements of an array, and appends anything else as one element:
  an extension node without \<^verbatim>\<open>directives\<close> adds the element \<^verbatim>\<open>undefined\<close> (\<open>None\<close>
  here). A base node without \<^verbatim>\<open>directives\<close> leaves \<^verbatim>\<open>directiveNodes\<close> undefined, and
  the next use of it (\<^verbatim>\<open>concat\<close>, or else \<^verbatim>\<open>forEach\<close>) is a TypeError, before anything
  else has happened.
\<close>

definition concatenated :: "'vn ASTNode \<Rightarrow> 'vn DirectiveNode option list" where
  "concatenated extensionASTNode =
     (case directives extensionASTNode of None \<Rightarrow> [None] | Some ds \<Rightarrow> map Some ds)"

definition collectDirectiveNodes ::
  "'vn VisitableSchemaType \<Rightarrow> error + 'vn DirectiveNode option list" where
  "collectDirectiveNodes type =
     (case (case astNode type of
              None \<Rightarrow> Some []
            | Some node \<Rightarrow> map_option (map Some) (directives node)) of
        None \<Rightarrow> Inl TypeError
      | Some base \<Rightarrow>
          Inr (case extensionASTNodes type of
                 None \<Rightarrow> base
               | Some exts \<Rightarrow>
                   fold (\<lambda>extensionASTNode directiveNodes.
                           directiveNodes @ concatenated extensionASTNode)
                        exts base))"

subsection \<open>One occurrence\<close>

text \<open>The arguments of an occurrence of an undeclared directive:
  \<^verbatim>\<open>args[arg.name.value] = valueFromASTUntyped(arg.value)\<close> for each argument node in turn.\<close>

fun convertArguments ::
  "('vn \<Rightarrow> error + 'val) \<Rightarrow> 'vn ArgumentNode list \<Rightarrow> (string \<times> 'val) list \<Rightarrow>
   error + (string \<times> 'val) list" where
  "convertArguments convert [] args = Inr args"
| "convertArguments convert (arg # rest) args =
     (case convert (a_value arg) of
        Inl e \<Rightarrow> Inl e
      | Inr v \<Rightarrow> convertArguments convert rest (AList.update (a_name arg) v args))"

definition untypedArguments ::
  "('vn, 'val, 'ad) library \<Rightarrow> 'vn DirectiveNode \<Rightarrow> error + (string \<times> 'val) list" where
  "untypedArguments lib directiveNode =
     (case dn_arguments directiveNode of
        None \<Rightarrow> Inr []
      | Some arguments \<Rightarrow> convertArguments (valueFromASTUntyped lib) arguments [])"

text \<open>The body of the loop over the directive nodes: \<open>Inr None\<close> is the early
  \<^verbatim>\<open>return\<close>, \<open>Inr (Some visitor)\<close> the instance pushed, \<open>Inl\<close> an exception.\<close>

definition visitDirectiveNode ::
  "('vn, 'val, 'ad) library \<Rightarrow> 'ad GraphQLSchema \<Rightarrow> (string \<times> 'ad visitorClass) list \<Rightarrow>
   (string \<times> 'ad GraphQLDirective) list \<Rightarrow> nat \<Rightarrow> 'vn VisitableSchemaType \<Rightarrow> string \<Rightarrow>
   'vn DirectiveNode \<Rightarrow> error + ('val, 'ad) SchemaDirectiveVisitor option" where
  "visitDirectiveNode lib schema directiveVisitors declaredDirectives context type methodName
       directiveNode =
     (let directiveName = dn_name directiveNode
      in case map_of directiveVisitors directiveName of
           None \<Rightarrow> Inr None
         | Some visitorClass \<Rightarrow>
             if \<not> implementsVisitorMethod visitorClass methodName then Inr None
             else
               (case (case map_of declaredDirectives directiveName of
                        Some decl \<Rightarrow> getArgumentValues lib decl directiveNode
                      | None \<Rightarrow> untypedArguments lib directiveNode) of
                  Inl e \<Rightarrow> Inl e
                | Inr args \<Rightarrow>
                    Inr (Some (new_SchemaDirectiveVisitor
                                 \<lparr> c_name = directiveName,
                                   c_args = args,
                                   c_visitedType = t_ref type,
                                   c_schema = schema,
                                   c_context = context \<rparr>))))"

subsection \<open>The selector\<close>

text \<open>\<^verbatim>\<open>directiveNodes.forEach\<close>: the local array \<^verbatim>\<open>visitors\<close> grows by one instance for each
  occurrence that is not skipped; reading a property of an \<^verbatim>\<open>undefined\<close> element is a
  TypeError.\<close>

fun forEachDirectiveNode ::
  "('vn DirectiveNode \<Rightarrow> error + ('val, 'ad) SchemaDirectiveVisitor option) \<Rightarrow>
   'vn DirectiveNode option list \<Rightarrow>
   ('val, 'ad) SchemaDirectiveVisitor list \<times> ('val, 'ad) event list \<Rightarrow>
   error + ('val, 'ad) SchemaDirectiveVisitor list \<times> ('val, 'ad) event list" where
  "forEachDirectiveNode body [] acc = Inr acc"
| "forEachDirectiveNode body (None # rest) acc = Inl TypeError"
| "forEachDirectiveNode body (Some directiveNode # rest) (visitors, log) =
     (case body directiveNode of
        Inl e \<Rightarrow> Inl e
      | Inr None \<Rightarrow> forEachDirectiveNode body rest (visitors, log)
      | Inr (Some visitor) \<Rightarrow>
          forEachDirectiveNode body rest (visitors @ [visitor], log @ [Constructed visitor]))"

text \<open>\<^verbatim>\<open>visitors.forEach(visitor => createdVisitors[visitor.name].push(visitor))\<close>; pushing
  onto a missing entry would be a TypeError.\<close>

fun pushCreated ::
  "('val, 'ad) SchemaDirectiveVisitor list \<Rightarrow>
   (string \<times> ('val, 'ad) SchemaDirectiveVisitor list) list \<Rightarrow>
   error + (string \<times> ('val, 'ad) SchemaDirectiveVisitor list) list" where
  "pushCreated [] created = Inr created"
| "pushCreated (visitor # rest) created =
     (case map_of created (v_name visitor) of
        None \<Rightarrow> Inl TypeError
      | Some list \<Rightarrow>
          pushCreated rest (AList.update (v_name visitor) (list @ [visitor]) created))"

definition visitorSelector ::
  "('vn, 'val, 'ad) library \<Rightarrow> 'ad GraphQLSchema \<Rightarrow> (string \<times> 'ad visitorClass) list \<Rightarrow>
   (string \<times> 'ad GraphQLDirective) list \<Rightarrow> nat \<Rightarrow> 'vn VisitableSchemaType \<Rightarrow> string \<Rightarrow>
   ('val, 'ad) dispatchState \<Rightarrow>
   error + ('val, 'ad) SchemaDirectiveVisitor list \<times> ('val, 'ad) dispatchState" where
  "visitorSelector lib schema directiveVisitors declaredDirectives context type methodName st =
     (case collectDirectiveNodes type of
        Inl e \<Rightarrow> Inl e
      | Inr directiveNodes \<Rightarrow>
          (case forEachDirectiveNode
                  (visitDirectiveNode lib schema directiveVisitors declaredDirectives context
                     type methodName)
                  directiveNodes ([], events st) of
             Inl e \<Rightarrow> Inl e
           | Inr (visitors, log) \<Rightarrow>
               (case pushCreated visitors (createdVisitors st) of
                  Inl e \<Rightarrow> Inl e
                | Inr created \<Rightarrow>
                    Inr (visitors, \<lparr> createdVisitors = created, events = log \<rparr>))))"

subsection \<open>The walker\<close>

text \<open>
  \<^verbatim>\<open>visitSchema\<close> (./visitSchema), the walker that offers the elements of the schema to
  the selector, is not among the sources; it is taken as a parameter. All it can do
  with the selector is call it, so a walker is given as a finite strategy: it is done,
  or it throws, or it offers an element under a method name to the selector and goes on
  according to the visitors it gets back, or it calls a handler on a visitor and goes
  on. \<open>visitSchema\<close> runs such a strategy against a selector; an exception of the
  selector ends the walk.
\<close>

datatype ('vn, 'val, 'ad) walker =
    Done
  | Throw error
  | Offer "'vn VisitableSchemaType" string
      "('val, 'ad) SchemaDirectiveVisitor list \<Rightarrow> ('vn, 'val, 'ad) walker"
  | Invoke "('val, 'ad) SchemaDirectiveVisitor" string "('vn, 'val, 'ad) walker"

primrec visitSchema ::
  "('vn VisitableSchemaType \<Rightarrow> string \<Rightarrow> ('val, 'ad) dispatchState \<Rightarrow>
      error + ('val, 'ad) SchemaDirectiveVisitor list \<times> ('val, 'ad) dispatchState) \<Rightarrow>
   ('vn, 'val, 'ad) walker \<Rightarrow> ('val, 'ad) dispatchState \<Rightarrow>
   error + ('val, 'ad) dispatchState" where
  "visitSchema selector Done = (\<lambda>st. Inr st)"
| "visitSchema selector (Throw e) = (\<lambda>st. Inl e)"
| "visitSchema selector (Offer type methodName continue) =
     (\<lambda>st. case selector type methodName st of
             Inl e \<Rightarrow> Inl e
           | Inr (visitors, st') \<Rightarrow> visitSchema selector (continue visitors) st')"
| "visitSchema selector (Invoke visitor methodName continue) =
     (\<lambda>st. visitSchema selector continue
             (st\<lparr> events := events st @ [Invoked visitor methodName] \<rparr>))"

subsection \<open>The entry point\<close>

text \<open>
  The context objects live in a heap, a list of objects addressed by position. The
  default value of the parameter \<^verbatim>\<open>context\<close>, \<^verbatim>\<open>Object.create(null)\<close>, is evaluated once,
  on entry, when the argument is left out (\<open>None\<close>): it allocates a new empty object.
  Handler bodies are not modelled, so the heap returned is the heap as the walk begins.
\<close>

type_synonym 'val heap = "(string \<times> 'val) list list"

definition defaultContext :: "nat option \<Rightarrow> 'val heap \<Rightarrow> nat \<times> 'val heap" where
  "defaultContext contextArg heap =
     (case contextArg of
        Some context \<Rightarrow> (context, heap)
      | None \<Rightarrow> (length heap, heap @ [[]]))"

definition initialCreatedVisitors ::
  "(string \<times> 'ad visitorClass) list \<Rightarrow>
   (string \<times> ('val, 'ad) SchemaDirectiveVisitor list) list" where
  "initialCreatedVisitors directiveVisitors =
     fold (\<lambda>directiveName created. AList.update directiveName [] created)
          (map fst directiveVisitors) []"

definition visitSchemaDirectives ::
  "('vn, 'val, 'ad) library \<Rightarrow> ('vn, 'val, 'ad) walker \<Rightarrow> 'ad GraphQLSchema \<Rightarrow>
   (string \<times> 'ad visitorClass) list \<Rightarrow> nat option \<Rightarrow> 'val heap \<Rightarrow>
   error + ('val, 'ad) dispatchState \<times> 'val heap" where
  "visitSchemaDirectives lib walker schema directiveVisitors contextArg heap =
     (case defaultContext contextArg heap of
        (context, heap') \<Rightarrow>
          (case getDeclaredDirectives schema directiveVisitors of
             Inl e \<Rightarrow> Inl e
           | Inr declaredDirectives \<Rightarrow>
               (case visitSchema
                       (visitorSelector lib schema directiveVisitors declaredDirectives context)
                       walker
                       \<lparr> createdVisitors = initialCreatedVisitors directiveVisitors,
                         events = [] \<rparr> of
                  Inl e \<Rightarrow> Inl e
                | Inr st \<Rightarrow> Inr (st, heap'))))"

section \<open>getArgumentValues of the graphql library\<close>

text \<open>
  \<^verbatim>\<open>getArgumentValues(def, node)\<close> is imported from \<^verbatim>\<open>graphql/execution/values\<close> (line 7 of
  SchemaDirectiveVisitor.ts); the graphql library is not part of this repository. It is
  modelled as release 14 of the library has it, called without variable values, as the
  selector calls it. The function goes through the arguments that the declaration
  defines, in their order, and never through the argument nodes: a node whose name the
  declaration does not define is not looked at.

  An argument definition has a name, a type and a default value (\<open>None\<close> for
  \<^verbatim>\<open>undefined\<close>). What depends on the types and on the kinds of literal is left open:
  whether a value node is the null literal or a variable, whether a type is non-null,
  the value \<^verbatim>\<open>valueFromAST\<close> coerces a literal to against a type (\<open>None\<close> for
  \<^verbatim>\<open>undefined\<close>, when the literal does not fit the type), and the value \<^verbatim>\<open>null\<close>.
\<close>

record ('ty, 'val) GraphQLArgument =
  arg_name :: string
  arg_type :: 'ty
  arg_defaultValue :: "'val option"

record ('vn, 'ty, 'val) graphql =
  isNullValue :: "'vn \<Rightarrow> bool"
  isVariable :: "'vn \<Rightarrow> bool"
  isNonNullType :: "'ty \<Rightarrow> bool"
  valueFromAST :: "'vn \<Rightarrow> 'ty \<Rightarrow> 'val option"
  nullValue :: 'val

text \<open>\<^verbatim>\<open>keyMap(argNodes, arg => arg.name.value)[name]\<close>: of several nodes of one name the
  last one is kept.\<close>

definition argumentNodeFor :: "'vn ArgumentNode list \<Rightarrow> string \<Rightarrow> 'vn ArgumentNode option" where
  "argumentNodeFor argNodes name = find (\<lambda>arg. a_name arg = name) (rev argNodes)"

text \<open>
  One declared argument. Without a node, and with a node whose value is a variable (no
  variable has a runtime value in this call): the declared default if there is one,
  else a GraphQLError when the type is non-null, else no entry. With the null literal:
  a GraphQLError when the type is non-null, else \<^verbatim>\<open>null\<close>. With any other literal: what
  \<^verbatim>\<open>valueFromAST\<close> coerces it to, and a GraphQLError when that is \<^verbatim>\<open>undefined\<close>. The error
  of the model carries the name of the argument. \<open>Inr None\<close> is no entry.
\<close>

definition coerceArgument ::
  "('vn, 'ty, 'val) graphql \<Rightarrow> ('ty, 'val) GraphQLArgument \<Rightarrow> 'vn ArgumentNode option \<Rightarrow>
   error + 'val option" where
  "coerceArgument g argDef argumentNode =
     (case (case argumentNode of
              None \<Rightarrow> None
            | Some node \<Rightarrow> if isVariable g (a_value node) then None else Some (a_value node)) of
        None \<Rightarrow>
          (case arg_defaultValue argDef of
             Some defaultValue \<Rightarrow> Inr (Some defaultValue)
           | None \<Rightarrow>
               if isNonNullType g (arg_type argDef) then Inl (GraphQLError (arg_name argDef))
               else Inr None)
      | Some valueNode \<Rightarrow>
          if isNullValue g valueNode
          then (if isNonNullType g (arg_type argDef) then Inl (GraphQLError (arg_name argDef))
                else Inr (Some (nullValue g)))
          else (case valueFromAST g valueNode (arg_type argDef) of
                  None \<Rightarrow> Inl (GraphQLError (arg_name argDef))
                | Some coercedValue \<Rightarrow> Inr (Some coercedValue)))"

text \<open>The loop over the argument definitions, filling \<^verbatim>\<open>coercedValues\<close>.\<close>

fun coerceArguments ::
  "('vn, 'ty, 'val) graphql \<Rightarrow> ('ty, 'val) GraphQLArgument list \<Rightarrow> 'vn ArgumentNode list \<Rightarrow>
   (string \<times> 'val) list \<Rightarrow> error + (string \<times> 'val) list" where
  "coerceArguments g [] argNodes coercedValues = Inr coercedValues"
| "coerceArguments g (argDef # rest) argNodes coercedValues =
     (case coerceArgument g argDef (argumentNodeFor argNodes (arg_name argDef)) of
        Inl e \<Rightarrow> Inl e
      | Inr None \<Rightarrow> coerceArguments g rest argNodes coercedValues
      | Inr (Some v) \<Rightarrow>
          coerceArguments g rest argNodes (AList.update (arg_name argDef) v coercedValues))"

text \<open>
  The function itself. A directive node built by the parser always has its
  \<^verbatim>\<open>arguments\<close>; a node without the property is read here as a node without arguments
  (releases of the library differ on such a node, and no statement below is about it).
\<close>

definition graphql_getArgumentValues ::
  "('vn, 'ty, 'val) graphql \<Rightarrow> ('ty, 'val) GraphQLArgument list GraphQLDirective \<Rightarrow>
   'vn DirectiveNode \<Rightarrow> error + (string \<times> 'val) list" where
  "graphql_getArgumentValues g def node =
     coerceArguments g (d_args def)
       (case dn_arguments node of None \<Rightarrow> [] | Some argNodes \<Rightarrow> argNodes) []"

section \<open>Reading the log\<close>

text \<open>The instances constructed, in the order of their construction.\<close>

fun constructed :: "('val, 'ad) event list \<Rightarrow> ('val, 'ad) SchemaDirectiveVisitor list" where
  "constructed [] = []"
| "constructed (Constructed visitor # rest) = visitor # constructed rest"
| "constructed (Invoked visitor methodName # rest) = constructed rest"

text \<open>The instances that a list of directive nodes yields under a loop body, in the order
  of the nodes.\<close>

definition instancesOf ::
  "('vn DirectiveNode \<Rightarrow> error + ('val, 'ad) SchemaDirectiveVisitor option) \<Rightarrow>
   'vn DirectiveNode option list \<Rightarrow> ('val, 'ad) SchemaDirectiveVisitor list" where
  "instancesOf body directiveNodes =
     concat (map (\<lambda>node. case node of
                            None \<Rightarrow> []
                          | Some directiveNode \<Rightarrow>
                              (case body directiveNode of
                                 Inr (Some visitor) \<Rightarrow> [visitor]
                               | Inr None \<Rightarrow> []
                               | Inl e \<Rightarrow> []))
                 directiveNodes)"

subsection \<open>Handler calls as the specification words them\<close>

text \<open>
  The specification (4.5, step 2d) has the engine invoke the handler on an instance
  immediately upon its creation, before the next occurrence on the same element is
  processed. On a log this asks at least that every construction is directly followed
  by a handler call on the instance just constructed.
\<close>

fun invokedUponCreation :: "('val, 'ad) event list \<Rightarrow> bool" where
  "invokedUponCreation [] = True"
| "invokedUponCreation (Constructed visitor # Invoked visitor' methodName # rest) =
     (visitor' = visitor \<and> invokedUponCreation rest)"
| "invokedUponCreation (Constructed visitor # rest) = False"
| "invokedUponCreation (Invoked visitor methodName # rest) = invokedUponCreation rest"

text \<open>
  Modelled from the spec: what the walker does with the visitors the selector returns
  for an element is part of \<^verbatim>\<open>visitSchema\<close>, which is not among the sources. The
  specification (4.1) has it let the returned visitor handlers run: a handler call on
  each returned visitor, in order.
\<close>

definition invokeAll ::
  "('val, 'ad) SchemaDirectiveVisitor list \<Rightarrow> string \<Rightarrow> ('vn, 'val, 'ad) walker \<Rightarrow>
   ('vn, 'val, 'ad) walker" where
  "invokeAll visitors methodName continue =
     foldr (\<lambda>visitor rest. Invoke visitor methodName rest) visitors continue"

section \<open>A small schema to run the definitions on\<close>

text \<open>
  A schema that declares \<^verbatim>\<open>@length(max: Int = 10)\<close> on field definitions and
  \<^verbatim>\<open>@deprecated\<close> on field definitions and enum values. One visitor class implements
  \<^verbatim>\<open>visitFieldDefinition\<close> only and is registered for \<^verbatim>\<open>@upper\<close> (which the schema does
  not declare) and for \<^verbatim>\<open>@length\<close>; another implements \<^verbatim>\<open>visitObject\<close> only and is
  registered for the undeclared \<^verbatim>\<open>@tag\<close>; a third brings its own declaration of
  \<^verbatim>\<open>@length\<close>. A literal node is the string of its source text and so is a value; the
  untyped conversion is the identity. \<^verbatim>\<open>getArgumentValues\<close> is the library's function of
  the section above, with \<^verbatim>\<open>null\<close> the null literal, a leading dollar sign marking a
  variable, a trailing exclamation mark a non-null type, and the type \<^verbatim>\<open>Int\<close> accepting
  the literals made of digits.
\<close>

type_synonym ex_argDefs = "(string, string) GraphQLArgument list"

definition ex_valueFromAST :: "string \<Rightarrow> string \<Rightarrow> string option" where
  "ex_valueFromAST valueNode type =
     (if type = ''Int'' \<or> type = ''Int!''
      then (if valueNode \<noteq> [] \<and> list_all (\<lambda>c. c \<in> set ''0123456789'') valueNode
            then Some valueNode else None)
      else Some valueNode)"

definition ex_graphql :: "(string, string, string) graphql" where
  "ex_graphql =
     \<lparr> isNullValue = (\<lambda>valueNode. valueNode = ''null''),
       isVariable = (\<lambda>valueNode. take 1 valueNode = ''$''),
       isNonNullType = (\<lambda>type. type \<noteq> [] \<and> last type = CHR ''!''),
       valueFromAST = ex_valueFromAST,
       nullValue = ''null'' \<rparr>"

definition ex_lib :: "(string, string, ex_argDefs) library" where
  "ex_lib = \<lparr> getArgumentValues = graphql_getArgumentValues ex_graphql,
             valueFromASTUntyped = Inr \<rparr>"

definition ex_length :: "ex_argDefs GraphQLDirective" where
  "ex_length = \<lparr> d_name = ''length'', d_locations = [''FIELD_DEFINITION''],
                 d_args = [\<lparr> arg_name = ''max'', arg_type = ''Int'',
                             arg_defaultValue = Some ''10'' \<rparr>] \<rparr>"

definition ex_deprecated :: "ex_argDefs GraphQLDirective" where
  "ex_deprecated = \<lparr> d_name = ''deprecated'', d_locations = [''FIELD_DEFINITION'', ''ENUM_VALUE''],
                     d_args = [\<lparr> arg_name = ''reason'', arg_type = ''String'',
                                 arg_defaultValue = Some ''No longer supported'' \<rparr>] \<rparr>"

definition ex_schema :: "ex_argDefs GraphQLSchema" where
  "ex_schema = \<lparr> getDirectives = [ex_length, ex_deprecated] \<rparr>"

definition ex_fieldVisitor :: "ex_argDefs visitorClass" where
  "ex_fieldVisitor = \<lparr> vc_methods = [''visitFieldDefinition''], vc_getDirectiveDeclaration = None \<rparr>"

definition ex_lengthOverride :: "ex_argDefs GraphQLDirective" where
  "ex_lengthOverride = \<lparr> d_name = ''length'', d_locations = [''FIELD_DEFINITION''],
                         d_args = [\<lparr> arg_name = ''max'', arg_type = ''Int'',
                                     arg_defaultValue = Some ''255'' \<rparr>] \<rparr>"

definition ex_hookVisitor :: "ex_argDefs visitorClass" where
  "ex_hookVisitor = \<lparr> vc_methods = [''visitFieldDefinition''],
                      vc_getDirectiveDeclaration = Some (\<lambda>directiveName schema. Some ex_lengthOverride) \<rparr>"

definition ex_objectVisitor :: "ex_argDefs visitorClass" where
  "ex_objectVisitor = \<lparr> vc_methods = [''visitObject''], vc_getDirectiveDeclaration = None \<rparr>"

definition ex_visitors :: "(string \<times> ex_argDefs visitorClass) list" where
  "ex_visitors =
     [(''upper'', ex_fieldVisitor), (''length'', ex_fieldVisitor), (''tag'', ex_objectVisitor)]"

definition ex_declared :: "(string \<times> ex_argDefs GraphQLDirective) list" where
  "ex_declared = [(''length'', ex_length), (''deprecated'', ex_deprecated)]"

definition ex_upperNode :: "string DirectiveNode" where
  "ex_upperNode = \<lparr> dn_name = ''upper'', dn_arguments = Some [] \<rparr>"

definition ex_deprecatedNode :: "string DirectiveNode" where
  "ex_deprecatedNode = \<lparr> dn_name = ''deprecated'', dn_arguments = Some [] \<rparr>"

definition ex_lengthNode :: "string DirectiveNode" where
  "ex_lengthNode =
     \<lparr> dn_name = ''length'', dn_arguments = Some [\<lparr> a_name = ''max'', a_value = ''50'' \<rparr>] \<rparr>"

definition ex_minNode :: "string DirectiveNode" where
  "ex_minNode =
     \<lparr> dn_name = ''length'', dn_arguments = Some [\<lparr> a_name = ''min'', a_value = ''1'' \<rparr>] \<rparr>"

definition ex_wordNode :: "string DirectiveNode" where
  "ex_wordNode =
     \<lparr> dn_name = ''length'', dn_arguments = Some [\<lparr> a_name = ''max'', a_value = ''long'' \<rparr>] \<rparr>"

definition ex_tagNode :: "string \<Rightarrow> string DirectiveNode" where
  "ex_tagNode label =
     \<lparr> dn_name = ''tag'', dn_arguments = Some [\<lparr> a_name = ''name'', a_value = label \<rparr>] \<rparr>"

text \<open>
  The elements: an object type \<^verbatim>\<open>Book\<close> with \<^verbatim>\<open>@upper @tag(name: "a")\<close> on its definition
  and \<^verbatim>\<open>@tag(name: "b") @deprecated\<close> on an extension; a field \<^verbatim>\<open>title\<close> with
  \<^verbatim>\<open>@upper @deprecated @length(max: 50)\<close>; and a type built without syntax nodes. The
  walker offers the type and then the field and lets the handlers of the returned
  visitors run.
\<close>

definition ex_Book :: "string VisitableSchemaType" where
  "ex_Book =
     \<lparr> t_ref = 1,
       astNode = Some \<lparr> directives = Some [ex_upperNode, ex_tagNode ''a''] \<rparr>,
       extensionASTNodes = Some [\<lparr> directives = Some [ex_tagNode ''b'', ex_deprecatedNode] \<rparr>] \<rparr>"

definition ex_title :: "string VisitableSchemaType" where
  "ex_title =
     \<lparr> t_ref = 2,
       astNode = Some \<lparr> directives = Some [ex_upperNode, ex_deprecatedNode, ex_lengthNode] \<rparr>,
       extensionASTNodes = None \<rparr>"

definition ex_programmatic :: "string VisitableSchemaType" where
  "ex_programmatic = \<lparr> t_ref = 3, astNode = None, extensionASTNodes = None \<rparr>"

definition ex_walker :: "(string, string, ex_argDefs) walker" where
  "ex_walker =
     Offer ex_Book ''visitObject'' (\<lambda>visitors. invokeAll visitors ''visitObject''
       (Offer ex_title ''visitFieldDefinition'' (\<lambda>visitors.
          invokeAll visitors ''visitFieldDefinition'' Done)))"

definition ex_state :: "(string, ex_argDefs) dispatchState" where
  "ex_state = \<lparr> createdVisitors = initialCreatedVisitors ex_visitors, events = [] \<rparr>"

text \<open>The instances of the example pass and the state it ends in.\<close>

definition ex_instance ::
  "string \<Rightarrow> (string \<times> string) list \<Rightarrow> nat \<Rightarrow>
   (string, ex_argDefs) SchemaDirectiveVisitor" where
  "ex_instance directiveName args visited =
     \<lparr> v_name = directiveName, v_args = args, v_visitedType = visited,
       v_schema = ex_schema, v_context = 0 \<rparr>"

definition ex_final :: "(string, ex_argDefs) dispatchState" where
  "ex_final =
     \<lparr> createdVisitors =
         [(''upper'', [ex_instance ''upper'' [] 2]),
          (''length'', [ex_instance ''length'' [(''max'', ''50'')] 2]),
          (''tag'', [ex_instance ''tag'' [(''name'', ''a'')] 1,
                     ex_instance ''tag'' [(''name'', ''b'')] 1])],
       events =
         [Constructed (ex_instance ''tag'' [(''name'', ''a'')] 1),
          Constructed (ex_instance ''tag'' [(''name'', ''b'')] 1),
          Invoked (ex_instance ''tag'' [(''name'', ''a'')] 1) ''visitObject'',
          Invoked (ex_instance ''tag'' [(''name'', ''b'')] 1) ''visitObject'',
          Constructed (ex_instance ''upper'' [] 2),
          Constructed (ex_instance ''length'' [(''max'', ''50'')] 2),
          Invoked (ex_instance ''upper'' [] 2) ''visitFieldDefinition'',
          Invoked (ex_instance ''length'' [(''max'', ''50'')] 2) ''visitFieldDefinition''] \<rparr>"

section \<open>Properties of the location mapper\<close>

lemma replacePart_titleCase: "replacePart seg = titleCase seg"
  by (cases seg) (simp_all add: titleCase_def)

declare replaceAll.simps [simp del]

lemma replaceAll_Nil: "replaceAll [] = []"
  by (subst replaceAll.simps) simp

lemma replaceAll_underscore: "replaceAll (CHR ''_'' # cs) = replaceAll cs"
  by (subst replaceAll.simps [of "CHR ''_'' # cs"]) simp

lemma splitOn_not_Nil: "splitOn sep s \<noteq> []"
  by (induction s) (auto split: list.splits)

lemma splitOn_no_sep: "sep \<notin> set p \<Longrightarrow> splitOn sep p = [p]"
  by (induction p) auto

lemma splitOn_append_sep:
  "sep \<notin> set p \<Longrightarrow> splitOn sep (p @ sep # r) = p # splitOn sep r"
  by (induction p) auto

lemma replaceAll_splitOn:
  "replaceAll s = concat (map titleCase (splitOn (CHR ''_'') s))"
proof (induction s rule: replaceAll.induct)
  case (1 s)
  show ?case
  proof (cases "s = []")
    case True
    then show ?thesis by (simp add: replaceAll_Nil titleCase_def)
  next
    case False
    define part where "part = takeWhile (\<lambda>c. c \<noteq> CHR ''_'') s"
    define rest where "rest = dropWhile (\<lambda>c. c \<noteq> CHR ''_'') s"
    define nxt where "nxt = (case rest of [] \<Rightarrow> [] | u # r \<Rightarrow> r)"
    have s: "s = part @ rest"
      by (simp add: part_def rest_def)
    have IH: "replaceAll nxt = concat (map titleCase (splitOn (CHR ''_'') nxt))"
      using "1.IH" [OF part_def rest_def False] by (simp add: nxt_def)
    have unfold: "replaceAll s = replacePart part @ replaceAll nxt"
      using False by (subst replaceAll.simps) (simp add: part_def rest_def nxt_def Let_def)
    have nou: "CHR ''_'' \<notin> set part"
      unfolding part_def by (metis (mono_tags, lifting) set_takeWhileD)
    have split: "concat (map titleCase (splitOn (CHR ''_'') (part @ rest)))
                 = titleCase part @ concat (map titleCase (splitOn (CHR ''_'') nxt))"
    proof (cases rest)
      case Nil
      then show ?thesis
        using nou by (simp add: nxt_def splitOn_no_sep titleCase_def)
    next
      case (Cons u r)
      have "\<not> (hd rest \<noteq> CHR ''_'')"
        unfolding rest_def using Cons rest_def by (intro hd_dropWhile) auto
      then have "u = CHR ''_''" using Cons by simp
      then show ?thesis
        using nou Cons by (simp add: nxt_def splitOn_append_sep)
    qed
    show ?thesis
      using unfold IH split s by (simp add: replacePart_titleCase)
  qed
qed


text \<open>
  C7. \<^verbatim>\<open>directiveLocationToVisitorMethodName\<close> is a total function of the location name:
  its result is \<^verbatim>\<open>visit\<close> followed by the title-cased segments of the name split at the
  underscores; \<^verbatim>\<open>FIELD_DEFINITION\<close> gives \<^verbatim>\<open>visitFieldDefinition\<close> and \<^verbatim>\<open>ENUM_VALUE\<close>
  gives \<^verbatim>\<open>visitEnumValue\<close>.
\<close>

theorem location_mapper_title_cases_segments:
  "directiveLocationToVisitorMethodName loc
     = ''visit'' @ concat (map titleCase (splitOn (CHR ''_'') loc)) \<and>
   directiveLocationToVisitorMethodName loc = spec_methodName loc \<and>
   directiveLocationToVisitorMethodName ''FIELD_DEFINITION'' = ''visitFieldDefinition'' \<and>
   directiveLocationToVisitorMethodName ''ENUM_VALUE'' = ''visitEnumValue''"
proof -
  have general: "directiveLocationToVisitorMethodName loc
                   = ''visit'' @ concat (map titleCase (splitOn (CHR ''_'') loc))"
    by (simp add: directiveLocationToVisitorMethodName_def replaceAll_splitOn)
  have field: "directiveLocationToVisitorMethodName ''FIELD_DEFINITION'' = ''visitFieldDefinition''"
    by code_simp
  have enum: "directiveLocationToVisitorMethodName ''ENUM_VALUE'' = ''visitEnumValue''"
    by code_simp
  show ?thesis
    using general field enum by (simp add: spec_methodName_def)
qed

theorem location_mapper_title_cases_segments_witness:
  "directiveLocationToVisitorMethodName ''INPUT_FIELD_DEFINITION''
     = ''visit'' @ concat (map titleCase [''INPUT'', ''FIELD'', ''DEFINITION'']) \<and>
   directiveLocationToVisitorMethodName ''INPUT_FIELD_DEFINITION'' = ''visitInputFieldDefinition''"
proof -
  have split: "splitOn (CHR ''_'') ''INPUT_FIELD_DEFINITION'' = [''INPUT'', ''FIELD'', ''DEFINITION'']"
    by code_simp
  have tc: "''visit'' @ concat (map titleCase [''INPUT'', ''FIELD'', ''DEFINITION''])
              = ''visitInputFieldDefinition''"
    by code_simp
  show ?thesis
    using location_mapper_title_cases_segments [of "''INPUT_FIELD_DEFINITION''"] split tc
    by simp
qed

lemma type_system_locations_map_to_visitor_methods:
  "map directiveLocationToVisitorMethodName
     [''SCHEMA'', ''SCALAR'', ''OBJECT'', ''FIELD_DEFINITION'', ''ARGUMENT_DEFINITION'',
      ''INTERFACE'', ''UNION'', ''ENUM'', ''ENUM_VALUE'', ''INPUT_OBJECT'',
      ''INPUT_FIELD_DEFINITION'']
   = visitorMethods"
  by code_simp

section \<open>Properties of getDeclaredDirectives\<close>

lemma forEachThrowing_None:
  "(forEachThrowing body xs = None) = (\<forall>x\<in>set xs. body x = None)"
  by (induction xs) (auto split: option.splits)

lemma forEachThrowing_Some:
  "forEachThrowing body xs = Some e \<Longrightarrow> \<exists>x\<in>set xs. body x = Some e"
  by (induction xs) (auto split: option.splits)

lemma set_entries: "set (entries obj) = {(k, v). map_of obj k = Some v}"
proof -
  have "\<And>k v. map_of obj k = Some v \<Longrightarrow> \<exists>x\<in>set obj. Some v = map_of obj (fst x) \<and> k = fst x"
    by (metis fst_conv map_of_SomeD)
  then show ?thesis
    by (auto simp: entries_def split: option.splits)
qed

lemma find_append:
  "find P (xs @ ys) = (case find P xs of None \<Rightarrow> find P ys | Some x \<Rightarrow> Some x)"
  by (induction xs) auto

lemma map_of_seed_fold:
  "map_of (fold (\<lambda>decl declared. AList.update (d_name decl) decl declared) decls acc) n =
     (case find (\<lambda>d. d_name d = n) (rev decls) of Some d \<Rightarrow> Some d | None \<Rightarrow> map_of acc n)"
proof (induction decls arbitrary: acc)
  case Nil
  then show ?case by simp
next
  case (Cons d ds)
  show ?case
    by (simp add: Cons.IH find_append update_conv' split: option.splits)
qed

lemma map_of_seedDeclarations:
  "map_of (seedDeclarations decls) n = find (\<lambda>d. d_name d = n) (rev decls)"
  by (simp add: seedDeclarations_def map_of_seed_fold split: option.splits)

lemma map_of_override_fold:
  assumes "\<forall>(k, c)\<in>set es. k = n \<longrightarrow> c = cls"
  shows "map_of (fold (\<lambda>(directiveName, visitorClass) declared.
             case getDirectiveDeclaration visitorClass directiveName schema of
               None \<Rightarrow> declared
             | Some decl \<Rightarrow> AList.update directiveName decl declared) es declared) n =
         (if n \<in> fst ` set es
          then (case getDirectiveDeclaration cls n schema of
                  Some d \<Rightarrow> Some d | None \<Rightarrow> map_of declared n)
          else map_of declared n)"
  using assms
proof (induction es arbitrary: declared)
  case Nil
  then show ?case by simp
next
  case (Cons p es)
  obtain k c where p: "p = (k, c)" by (cases p)
  have rest: "\<forall>(k, c)\<in>set es. k = n \<longrightarrow> c = cls" using Cons.prems by auto
  show ?case
  proof (cases "k = n")
    case True
    then have c: "c = cls" using Cons.prems p by auto
    show ?thesis
      using True c p by (simp add: Cons.IH [OF rest] update_conv' split: option.splits)
  next
    case False
    then show ?thesis
      using p by (simp add: Cons.IH [OF rest] update_conv' split: option.splits)
  qed
qed

lemma map_of_resolveDeclarations:
  "map_of (resolveDeclarations schema directiveVisitors) n =
     (case map_of directiveVisitors n of
        None \<Rightarrow> find (\<lambda>d. d_name d = n) (rev (getDirectives schema))
      | Some visitorClass \<Rightarrow>
          (case getDirectiveDeclaration visitorClass n schema of
             Some decl \<Rightarrow> Some decl
           | None \<Rightarrow> find (\<lambda>d. d_name d = n) (rev (getDirectives schema))))"
proof (cases "map_of directiveVisitors n")
  case None
  have a: "\<forall>(k, c)\<in>set (entries directiveVisitors). k = n \<longrightarrow> c = undefined"
    using None by (auto simp: set_entries)
  have b: "n \<notin> fst ` set (entries directiveVisitors)"
    using None by (auto simp: set_entries)
  show ?thesis
    unfolding resolveDeclarations_def overrideDeclarations_def
    using None b by (simp add: map_of_override_fold [OF a] map_of_seedDeclarations)
next
  case (Some cls)
  have a: "\<forall>(k, c)\<in>set (entries directiveVisitors). k = n \<longrightarrow> c = cls"
    using Some by (auto simp: set_entries)
  have b: "n \<in> fst ` set (entries directiveVisitors)"
    using Some by (force simp: set_entries)
  show ?thesis
    unfolding resolveDeclarations_def overrideDeclarations_def
    using Some b
    by (simp add: map_of_override_fold [OF a] map_of_seedDeclarations split: option.splits)
qed

lemma checkLocation_Some:
  "checkLocation name visitorClass loc = Some e \<Longrightarrow>
     e = MissingVisitorMethod name (directiveLocationToVisitorMethodName loc) \<and>
     SchemaVisitor_implementsVisitorMethod (directiveLocationToVisitorMethodName loc) \<and>
     \<not> implementsVisitorMethod visitorClass (directiveLocationToVisitorMethodName loc)"
  by (auto simp: checkLocation_def Let_def split: if_splits)

lemma checkLocation_None:
  "(checkLocation name visitorClass loc = None) =
     (\<not> (SchemaVisitor_implementsVisitorMethod (directiveLocationToVisitorMethodName loc) \<and>
         \<not> implementsVisitorMethod visitorClass (directiveLocationToVisitorMethodName loc)))"
  by (auto simp: checkLocation_def Let_def)

lemma getDeclaredDirectives_Inl:
  "getDeclaredDirectives schema directiveVisitors = Inl e \<Longrightarrow>
     \<exists>name visitorClass decl loc.
        map_of directiveVisitors name = Some visitorClass \<and>
        map_of (resolveDeclarations schema directiveVisitors) name = Some decl \<and>
        loc \<in> set (d_locations decl) \<and>
        e = MissingVisitorMethod name (directiveLocationToVisitorMethodName loc) \<and>
        SchemaVisitor_implementsVisitorMethod (directiveLocationToVisitorMethodName loc) \<and>
        \<not> implementsVisitorMethod visitorClass (directiveLocationToVisitorMethodName loc)"
proof -
  assume a: "getDeclaredDirectives schema directiveVisitors = Inl e"
  then have "forEachThrowing (checkDeclaration directiveVisitors)
               (entries (resolveDeclarations schema directiveVisitors)) = Some e"
    by (simp add: getDeclaredDirectives_def Let_def split: option.splits)
  then obtain entry where en: "entry \<in> set (entries (resolveDeclarations schema directiveVisitors))"
      and ce: "checkDeclaration directiveVisitors entry = Some e"
    by (blast dest: forEachThrowing_Some)
  obtain name decl where entry: "entry = (name, decl)" by (cases entry)
  have decl: "map_of (resolveDeclarations schema directiveVisitors) name = Some decl"
    using en entry by (simp add: set_entries)
  obtain visitorClass where vc: "map_of directiveVisitors name = Some visitorClass"
      and fe: "forEachThrowing (checkLocation name visitorClass) (d_locations decl) = Some e"
    using ce entry by (auto simp: checkDeclaration_def split: option.splits)
  obtain loc where loc: "loc \<in> set (d_locations decl)"
      and cl: "checkLocation name visitorClass loc = Some e"
    using fe by (blast dest: forEachThrowing_Some)
  show ?thesis
    using vc decl loc checkLocation_Some [OF cl] by blast
qed

lemma getDeclaredDirectives_throws:
  assumes vc: "map_of directiveVisitors name = Some visitorClass"
      and decl: "map_of (resolveDeclarations schema directiveVisitors) name = Some decl"
      and loc: "loc \<in> set (d_locations decl)"
      and base: "SchemaVisitor_implementsVisitorMethod (directiveLocationToVisitorMethodName loc)"
      and sub: "\<not> implementsVisitorMethod visitorClass (directiveLocationToVisitorMethodName loc)"
  shows "\<exists>e. getDeclaredDirectives schema directiveVisitors = Inl e"
proof -
  have "checkLocation name visitorClass loc \<noteq> None"
    using base sub by (simp add: checkLocation_None)
  then have "forEachThrowing (checkLocation name visitorClass) (d_locations decl) \<noteq> None"
    using loc by (auto simp: forEachThrowing_None)
  then have "checkDeclaration directiveVisitors (name, decl) \<noteq> None"
    using vc by (simp add: checkDeclaration_def)
  moreover have "(name, decl) \<in> set (entries (resolveDeclarations schema directiveVisitors))"
    using decl by (simp add: set_entries)
  ultimately have "forEachThrowing (checkDeclaration directiveVisitors)
               (entries (resolveDeclarations schema directiveVisitors)) \<noteq> None"
    unfolding forEachThrowing_None by (metis option.distinct(1))
  then show ?thesis
    by (auto simp: getDeclaredDirectives_def Let_def split: option.splits)
qed

lemma visitSchemaDirectives_Inl:
  "getDeclaredDirectives schema directiveVisitors = Inl e \<Longrightarrow>
     visitSchemaDirectives lib walker schema directiveVisitors contextArg heap = Inl e"
  by (simp add: visitSchemaDirectives_def split: prod.splits)

text \<open>
  C1. When a name of the visitor mapping has an effective declaration with a location
  whose method is a handler of the base class that the registered class does not
  implement, \<^verbatim>\<open>getDeclaredDirectives\<close> throws, and \<^verbatim>\<open>visitSchemaDirectives\<close> fails with
  that same error whatever the walker would have done: the walk never starts.
\<close>

theorem missing_handler_fails_before_walk:
  assumes "map_of directiveVisitors name = Some visitorClass"
      and "map_of (resolveDeclarations schema directiveVisitors) name = Some decl"
      and "loc \<in> set (d_locations decl)"
      and "SchemaVisitor_implementsVisitorMethod (directiveLocationToVisitorMethodName loc)"
      and "\<not> implementsVisitorMethod visitorClass (directiveLocationToVisitorMethodName loc)"
  shows "\<exists>n m. getDeclaredDirectives schema directiveVisitors = Inl (MissingVisitorMethod n m) \<and>
           (\<forall>(lib :: ('vn, 'val, 'ad) library) walker contextArg heap.
              visitSchemaDirectives lib walker schema directiveVisitors contextArg heap
                = Inl (MissingVisitorMethod n m))"
proof -
  obtain e where e: "getDeclaredDirectives schema directiveVisitors = Inl e"
    using getDeclaredDirectives_throws [OF assms] by blast
  obtain n m where "e = MissingVisitorMethod n m"
    using getDeclaredDirectives_Inl [OF e] by blast
  then show ?thesis
    using e visitSchemaDirectives_Inl [OF e] by blast
qed

theorem missing_handler_fails_before_walk_witness:
  "map_of [(''deprecated'', ex_fieldVisitor)] ''deprecated'' = Some ex_fieldVisitor \<and>
   map_of (resolveDeclarations ex_schema [(''deprecated'', ex_fieldVisitor)]) ''deprecated''
     = Some ex_deprecated \<and>
   ''ENUM_VALUE'' \<in> set (d_locations ex_deprecated) \<and>
   SchemaVisitor_implementsVisitorMethod (directiveLocationToVisitorMethodName ''ENUM_VALUE'') \<and>
   \<not> implementsVisitorMethod ex_fieldVisitor (directiveLocationToVisitorMethodName ''ENUM_VALUE'') \<and>
   (\<exists>n m. getDeclaredDirectives ex_schema [(''deprecated'', ex_fieldVisitor)]
            = Inl (MissingVisitorMethod n m) \<and>
          (\<forall>(lib :: (string, string, ex_argDefs) library)
             walker contextArg heap.
             visitSchemaDirectives lib walker ex_schema [(''deprecated'', ex_fieldVisitor)]
               contextArg heap = Inl (MissingVisitorMethod n m)))"
proof -
  have h1: "map_of [(''deprecated'', ex_fieldVisitor)] ''deprecated'' = Some ex_fieldVisitor"
    by simp
  have h2: "map_of (resolveDeclarations ex_schema [(''deprecated'', ex_fieldVisitor)])
              ''deprecated'' = Some ex_deprecated"
    by code_simp
  have h3: "''ENUM_VALUE'' \<in> set (d_locations ex_deprecated)"
    by (simp add: ex_deprecated_def)
  have h4: "SchemaVisitor_implementsVisitorMethod
              (directiveLocationToVisitorMethodName ''ENUM_VALUE'')"
    by code_simp
  have h5: "\<not> implementsVisitorMethod ex_fieldVisitor
                (directiveLocationToVisitorMethodName ''ENUM_VALUE'')"
    by code_simp
  show ?thesis
    using missing_handler_fails_before_walk [OF h1 h2 h3 h4 h5] h1 h2 h3 h4 h5
    by blast
qed

lemma getDeclaredDirectives_Inr:
  "getDeclaredDirectives schema directiveVisitors = Inr declared \<Longrightarrow>
     declared = resolveDeclarations schema directiveVisitors"
  by (simp add: getDeclaredDirectives_def Let_def split: option.splits)

lemma seeded_name:
  "d \<in> set decls \<Longrightarrow> d_name d \<in> fst ` set (seedDeclarations decls)"
proof -
  assume d: "d \<in> set decls"
  then have "find (\<lambda>x. d_name x = d_name d) (rev decls) \<noteq> None"
    by (auto simp: find_None_iff)
  then have "map_of (seedDeclarations decls) (d_name d) \<noteq> None"
    by (simp add: map_of_seedDeclarations)
  then show ?thesis
    by (metis map_of_eq_None_iff)
qed

text \<open>
  C4. When \<^verbatim>\<open>getDeclaredDirectives\<close> returns, the declaration it gives for a name is the
  one returned by the hook of the class registered under that name when that is not
  null, and otherwise the one seeded from the schema, which is found under the name of
  every directive the schema declares (the last one of that name). The inherited hook
  returns \<^verbatim>\<open>schema.getDirective(name)\<close>. A name without a visitor class keeps its seeded
  declaration, and every exception of the function comes from a name that has a
  visitor class.
\<close>

theorem effective_declarations:
  "(\<forall>declared n. getDeclaredDirectives schema directiveVisitors = Inr declared \<longrightarrow>
      map_of declared n =
        (case map_of directiveVisitors n of
           None \<Rightarrow> map_of (seedDeclarations (getDirectives schema)) n
         | Some visitorClass \<Rightarrow>
             (case getDirectiveDeclaration visitorClass n schema of
                Some decl \<Rightarrow> Some decl
              | None \<Rightarrow> map_of (seedDeclarations (getDirectives schema)) n))) \<and>
   (\<forall>n. map_of (seedDeclarations (getDirectives schema)) n
          = find (\<lambda>d. d_name d = n) (rev (getDirectives schema))) \<and>
   (\<forall>d\<in>set (getDirectives schema).
      d_name d \<in> fst ` set (seedDeclarations (getDirectives schema))) \<and>
   (\<forall>visitorClass n. vc_getDirectiveDeclaration visitorClass = None \<longrightarrow>
      getDirectiveDeclaration visitorClass n schema
        = find (\<lambda>d. d_name d = n) (getDirectives schema)) \<and>
   (\<forall>e. getDeclaredDirectives schema directiveVisitors = Inl e \<longrightarrow>
      (\<exists>name visitorClass decl loc.
          map_of directiveVisitors name = Some visitorClass \<and>
          map_of (resolveDeclarations schema directiveVisitors) name = Some decl \<and>
          loc \<in> set (d_locations decl) \<and>
          e = MissingVisitorMethod name (directiveLocationToVisitorMethodName loc)))"
proof -
  have a: "\<And>declared n. getDeclaredDirectives schema directiveVisitors = Inr declared \<Longrightarrow>
      map_of declared n =
        (case map_of directiveVisitors n of
           None \<Rightarrow> map_of (seedDeclarations (getDirectives schema)) n
         | Some visitorClass \<Rightarrow>
             (case getDirectiveDeclaration visitorClass n schema of
                Some decl \<Rightarrow> Some decl
              | None \<Rightarrow> map_of (seedDeclarations (getDirectives schema)) n))"
  proof -
    fix declared n
    assume "getDeclaredDirectives schema directiveVisitors = Inr declared"
    then have "declared = resolveDeclarations schema directiveVisitors"
      by (rule getDeclaredDirectives_Inr)
    then show "map_of declared n =
        (case map_of directiveVisitors n of
           None \<Rightarrow> map_of (seedDeclarations (getDirectives schema)) n
         | Some visitorClass \<Rightarrow>
             (case getDirectiveDeclaration visitorClass n schema of
                Some decl \<Rightarrow> Some decl
              | None \<Rightarrow> map_of (seedDeclarations (getDirectives schema)) n))"
      by (simp add: map_of_resolveDeclarations map_of_seedDeclarations split: option.splits)
  qed
  have b: "\<And>n. map_of (seedDeclarations (getDirectives schema)) n
          = find (\<lambda>d. d_name d = n) (rev (getDirectives schema))"
    by (rule map_of_seedDeclarations)
  have c: "\<And>d. d \<in> set (getDirectives schema) \<Longrightarrow>
      d_name d \<in> fst ` set (seedDeclarations (getDirectives schema))"
    by (rule seeded_name)
  have d: "\<And>visitorClass n. vc_getDirectiveDeclaration visitorClass = None \<Longrightarrow>
      getDirectiveDeclaration visitorClass n schema
        = find (\<lambda>d. d_name d = n) (getDirectives schema)"
    by (simp add: getDirectiveDeclaration_def getDirective_def)
  have e: "\<And>e. getDeclaredDirectives schema directiveVisitors = Inl e \<Longrightarrow>
      (\<exists>name visitorClass decl loc.
          map_of directiveVisitors name = Some visitorClass \<and>
          map_of (resolveDeclarations schema directiveVisitors) name = Some decl \<and>
          loc \<in> set (d_locations decl) \<and>
          e = MissingVisitorMethod name (directiveLocationToVisitorMethodName loc))"
    by (blast dest: getDeclaredDirectives_Inl)
  show ?thesis
    using a b c d e by blast
qed

theorem effective_declarations_witness:
  "getDeclaredDirectives ex_schema [(''length'', ex_hookVisitor)]
     = Inr [(''length'', ex_lengthOverride), (''deprecated'', ex_deprecated)] \<and>
   map_of [(''length'', ex_hookVisitor)] ''length'' = Some ex_hookVisitor \<and>
   getDirectiveDeclaration ex_hookVisitor ''length'' ex_schema = Some ex_lengthOverride \<and>
   map_of [(''length'', ex_lengthOverride), (''deprecated'', ex_deprecated)] ''length''
     = Some ex_lengthOverride \<and>
   map_of [(''length'', ex_hookVisitor)] ''deprecated'' = None \<and>
   map_of [(''length'', ex_lengthOverride), (''deprecated'', ex_deprecated)] ''deprecated''
     = map_of (seedDeclarations (getDirectives ex_schema)) ''deprecated'' \<and>
   map_of (seedDeclarations (getDirectives ex_schema)) ''deprecated'' = Some ex_deprecated \<and>
   ex_length \<in> set (getDirectives ex_schema) \<and>
   d_name ex_length \<in> fst ` set (seedDeclarations (getDirectives ex_schema)) \<and>
   vc_getDirectiveDeclaration ex_fieldVisitor = None \<and>
   getDirectiveDeclaration ex_fieldVisitor ''length'' ex_schema = Some ex_length \<and>
   getDeclaredDirectives ex_schema [(''deprecated'', ex_fieldVisitor)]
     = Inl (MissingVisitorMethod ''deprecated'' ''visitEnumValue'') \<and>
   (\<exists>name visitorClass decl loc.
      map_of [(''deprecated'', ex_fieldVisitor)] name = Some visitorClass \<and>
      map_of (resolveDeclarations ex_schema [(''deprecated'', ex_fieldVisitor)]) name = Some decl \<and>
      loc \<in> set (d_locations decl) \<and>
      MissingVisitorMethod ''deprecated'' ''visitEnumValue''
        = MissingVisitorMethod name (directiveLocationToVisitorMethodName loc))"
proof -
  have run: "getDeclaredDirectives ex_schema [(''length'', ex_hookVisitor)]
     = Inr [(''length'', ex_lengthOverride), (''deprecated'', ex_deprecated)]"
    by code_simp
  have hook: "getDirectiveDeclaration ex_hookVisitor ''length'' ex_schema = Some ex_lengthOverride"
    by (simp add: getDirectiveDeclaration_def ex_hookVisitor_def)
  have inmap: "ex_length \<in> set (getDirectives ex_schema)"
    by (simp add: ex_schema_def)
  have dflt: "vc_getDirectiveDeclaration ex_fieldVisitor = None"
    by (simp add: ex_fieldVisitor_def)
  have found: "find (\<lambda>d. d_name d = ''length'') (getDirectives ex_schema) = Some ex_length"
    by (simp add: ex_schema_def ex_length_def)
  have foundr: "find (\<lambda>d. d_name d = ''deprecated'') (rev (getDirectives ex_schema)) = Some ex_deprecated"
    by (simp add: ex_schema_def ex_deprecated_def)
  have bad: "getDeclaredDirectives ex_schema [(''deprecated'', ex_fieldVisitor)]
     = Inl (MissingVisitorMethod ''deprecated'' ''visitEnumValue'')"
    by code_simp
  note good = effective_declarations [of ex_schema "[(''length'', ex_hookVisitor)]"]
  note fail = effective_declarations [of ex_schema "[(''deprecated'', ex_fieldVisitor)]"]
  have g1: "map_of [(''length'', ex_lengthOverride), (''deprecated'', ex_deprecated)] ''length''
     = Some ex_lengthOverride" by simp
  have g2: "map_of [(''length'', ex_lengthOverride), (''deprecated'', ex_deprecated)] ''deprecated''
     = map_of (seedDeclarations (getDirectives ex_schema)) ''deprecated''"
    using good [THEN conjunct1, rule_format, OF run, of "''deprecated''"] by simp
  have g3: "map_of (seedDeclarations (getDirectives ex_schema)) ''deprecated'' = Some ex_deprecated"
    using good [THEN conjunct2, THEN conjunct1, rule_format, of "''deprecated''"] foundr
    by (simp only:)
  have g4: "d_name ex_length \<in> fst ` set (seedDeclarations (getDirectives ex_schema))"
    using good inmap by blast
  have g5: "getDirectiveDeclaration ex_fieldVisitor ''length'' ex_schema = Some ex_length"
    using good [THEN conjunct2, THEN conjunct2, THEN conjunct2, THEN conjunct1, rule_format,
                OF dflt, of "''length''"] found
    by (simp only:)
  have g6: "\<exists>name visitorClass decl loc.
      map_of [(''deprecated'', ex_fieldVisitor)] name = Some visitorClass \<and>
      map_of (resolveDeclarations ex_schema [(''deprecated'', ex_fieldVisitor)]) name = Some decl \<and>
      loc \<in> set (d_locations decl) \<and>
      MissingVisitorMethod ''deprecated'' ''visitEnumValue''
        = MissingVisitorMethod name (directiveLocationToVisitorMethodName loc)"
    using fail bad by blast
  show ?thesis
    using run hook g1 g2 g3 inmap g4 dflt g5 bad g6 by simp
qed

section \<open>Properties of the selector\<close>

lemma forEachDirectiveNode_skip:
  "body directiveNode = Inr None \<Longrightarrow>
     forEachDirectiveNode body (before @ Some directiveNode # after) acc
       = forEachDirectiveNode body (before @ after) acc"
proof (induction before arbitrary: acc)
  case Nil
  then show ?case by (cases acc) simp
next
  case (Cons x xs)
  obtain visitors log where acc: "acc = (visitors, log)" by (cases acc)
  show ?case
  proof (cases x)
    case None
    then show ?thesis by (simp add: acc)
  next
    case (Some d)
    then show ?thesis
      using Cons.IH [OF Cons.prems]
      by (simp add: acc split: sum.splits option.splits)
  qed
qed

lemma visitDirectiveNode_t_ref:
  "t_ref type' = t_ref type \<Longrightarrow>
     visitDirectiveNode lib schema directiveVisitors declared context type' methodName
       = visitDirectiveNode lib schema directiveVisitors declared context type methodName"
  by (rule ext) (simp add: visitDirectiveNode_def Let_def split: option.splits sum.splits)

lemma visitDirectiveNode_skipped:
  "map_of directiveVisitors (dn_name directiveNode) = None \<or>
   (\<exists>visitorClass. map_of directiveVisitors (dn_name directiveNode) = Some visitorClass \<and>
                    \<not> implementsVisitorMethod visitorClass methodName) \<Longrightarrow>
   visitDirectiveNode lib schema directiveVisitors declared context type methodName directiveNode
     = Inr None"
  by (auto simp: visitDirectiveNode_def)

lemma visitDirectiveNode_Some:
  assumes "visitDirectiveNode lib schema directiveVisitors declared context type methodName
             directiveNode = Inr (Some visitor)"
  shows "\<exists>visitorClass.
           map_of directiveVisitors (dn_name directiveNode) = Some visitorClass \<and>
           implementsVisitorMethod visitorClass methodName \<and>
           (case map_of declared (dn_name directiveNode) of
              Some decl \<Rightarrow> getArgumentValues lib decl directiveNode
            | None \<Rightarrow> untypedArguments lib directiveNode) = Inr (v_args visitor) \<and>
           visitor = new_SchemaDirectiveVisitor
                       \<lparr> c_name = dn_name directiveNode, c_args = v_args visitor,
                         c_visitedType = t_ref type, c_schema = schema, c_context = context \<rparr>"
  using assms
  by (auto simp: visitDirectiveNode_def Let_def new_SchemaDirectiveVisitor_def
           split: option.splits if_splits sum.splits)

lemma fold_concatenated:
  "map directives exts = map Some extDirectives \<Longrightarrow>
     fold (\<lambda>extensionASTNode directiveNodes. directiveNodes @ concatenated extensionASTNode)
          exts base
       = base @ map Some (concat extDirectives)"
proof (induction exts arbitrary: base extDirectives)
  case Nil
  then show ?case by simp
next
  case (Cons x xs)
  then obtain d ds where eds: "extDirectives = d # ds" and x: "directives x = Some d"
      and rest: "map directives xs = map Some ds"
    by (cases extDirectives) auto
  show ?case
    using Cons.IH [OF rest] by (simp add: eds x concatenated_def)
qed

lemma collectDirectiveNodes_merged:
  assumes "(case astNode type of None \<Rightarrow> Some [] | Some node \<Rightarrow> directives node) = Some base"
      and "map directives (case extensionASTNodes type of None \<Rightarrow> [] | Some exts \<Rightarrow> exts)
             = map Some extDirectives"
  shows "collectDirectiveNodes type = Inr (map Some (base @ concat extDirectives))"
proof (cases "extensionASTNodes type")
  case None
  then show ?thesis
    using assms by (auto simp: collectDirectiveNodes_def split: option.splits)
next
  case (Some exts)
  then have "map directives exts = map Some extDirectives" using assms(2) by simp
  then show ?thesis
    using assms(1) Some
    by (auto simp: collectDirectiveNodes_def fold_concatenated split: option.splits)
qed

lemma convertArguments_Inr:
  "convertArguments convert arguments acc = Inr args \<Longrightarrow>
     (\<forall>arg\<in>set arguments. \<exists>v. convert (a_value arg) = Inr v) \<and>
     (\<forall>n. map_of args n =
        (case find (\<lambda>arg. a_name arg = n) (rev arguments) of
           None \<Rightarrow> map_of acc n
         | Some arg \<Rightarrow> (case convert (a_value arg) of Inr v \<Rightarrow> Some v | Inl e \<Rightarrow> None)))"
proof (induction arguments arbitrary: acc)
  case Nil
  then show ?case by simp
next
  case (Cons arg rest)
  then obtain v where v: "convert (a_value arg) = Inr v"
      and r: "convertArguments convert rest (AList.update (a_name arg) v acc) = Inr args"
    by (auto split: sum.splits)
  show ?case
    using Cons.IH [OF r] v
    by (auto simp: find_append update_conv' split: option.splits)
qed

lemma constructed_append: "constructed (xs @ ys) = constructed xs @ constructed ys"
  by (induction xs rule: constructed.induct) simp_all

lemma constructed_map_Constructed: "constructed (map Constructed visitors) = visitors"
  by (induction visitors) simp_all

lemma forEachDirectiveNode_Inr:
  "forEachDirectiveNode body directiveNodes (visitors, log) = Inr result \<Longrightarrow>
     result = (visitors @ instancesOf body directiveNodes,
               log @ map Constructed (instancesOf body directiveNodes))"
proof (induction directiveNodes arbitrary: visitors log)
  case Nil
  then show ?case by (simp add: instancesOf_def)
next
  case (Cons node rest)
  show ?case
  proof (cases node)
    case None
    then show ?thesis using Cons.prems by simp
  next
    case (Some directiveNode)
    show ?thesis
    proof (cases "body directiveNode")
      case (Inl e)
      then show ?thesis using Cons.prems Some by simp
    next
      case (Inr r)
      show ?thesis
      proof (cases r)
        case None
        then show ?thesis
          using Cons.prems Some Inr Cons.IH [of visitors log]
          by (simp add: instancesOf_def)
      next
        case (Some visitor)
        then show ?thesis
          using Cons.prems \<open>node = Some directiveNode\<close> Inr
                Cons.IH [of "visitors @ [visitor]" "log @ [Constructed visitor]"]
          by (simp add: instancesOf_def)
      qed
    qed
  qed
qed

lemma instancesOf_body:
  "visitor \<in> set (instancesOf body directiveNodes) \<Longrightarrow>
     \<exists>directiveNode. Some directiveNode \<in> set directiveNodes \<and>
                     body directiveNode = Inr (Some visitor)"
  by (auto simp: instancesOf_def split: option.splits sum.splits)

lemma pushCreated_Inr:
  "pushCreated visitors created = Inr created' \<Longrightarrow>
     fst ` set created' = fst ` set created \<and>
     (\<forall>n. map_of created' n =
        map_option (\<lambda>list. list @ filter (\<lambda>v. v_name v = n) visitors) (map_of created n))"
proof (induction visitors arbitrary: created)
  case Nil
  then show ?case by (simp add: option.map_ident)
next
  case (Cons visitor rest)
  then obtain list where l: "map_of created (v_name visitor) = Some list"
      and r: "pushCreated rest (AList.update (v_name visitor) (list @ [visitor]) created)
                = Inr created'"
    by (auto split: option.splits)
  have key: "v_name visitor \<in> fst ` set created"
    using l by (metis map_of_eq_None_iff option.distinct(1))
  show ?case
    using Cons.IH [OF r] l key
    by (auto simp: dom_update update_conv')
qed

lemma visitorSelector_Inr:
  assumes "visitorSelector lib schema directiveVisitors declared context type methodName st
             = Inr (visitors, st')"
  shows "\<exists>directiveNodes.
           collectDirectiveNodes type = Inr directiveNodes \<and>
           visitors = instancesOf
                        (visitDirectiveNode lib schema directiveVisitors declared context type
                           methodName) directiveNodes \<and>
           events st' = events st @ map Constructed visitors \<and>
           pushCreated visitors (createdVisitors st) = Inr (createdVisitors st')"
proof -
  obtain directiveNodes where n: "collectDirectiveNodes type = Inr directiveNodes"
    using assms by (auto simp: visitorSelector_def split: sum.splits)
  let ?body = "visitDirectiveNode lib schema directiveVisitors declared context type methodName"
  obtain r where r: "forEachDirectiveNode ?body directiveNodes ([], events st) = Inr r"
    using assms n by (auto simp: visitorSelector_def split: sum.splits)
  have r': "r = ([] @ instancesOf ?body directiveNodes,
                 events st @ map Constructed (instancesOf ?body directiveNodes))"
    using r by (rule forEachDirectiveNode_Inr)
  show ?thesis
    using assms n r r'
    by (auto simp: visitorSelector_def split: sum.splits)
qed

text \<open>The selector on the type of the example, from the initial state.\<close>

lemma ex_run_selector:
  "visitorSelector ex_lib ex_schema ex_visitors ex_declared 0 ex_Book ''visitObject'' ex_state
     = Inr ([ex_instance ''tag'' [(''name'', ''a'')] 1, ex_instance ''tag'' [(''name'', ''b'')] 1],
            \<lparr> createdVisitors =
                 [(''upper'', []), (''length'', []),
                  (''tag'', [ex_instance ''tag'' [(''name'', ''a'')] 1,
                             ex_instance ''tag'' [(''name'', ''b'')] 1])],
               events = [Constructed (ex_instance ''tag'' [(''name'', ''a'')] 1),
                         Constructed (ex_instance ''tag'' [(''name'', ''b'')] 1)] \<rparr>)"
  by code_simp

text \<open>
  C2. An occurrence whose name is not a key of the visitor mapping, or whose
  registered class does not implement the method under which the element is offered,
  yields no instance: the loop body returns early, and the selector returns the same
  visitors and leaves the same state as for the element without that occurrence.
\<close>

theorem unregistered_or_unimplemented_occurrence_is_skipped:
  assumes nodes: "collectDirectiveNodes type = Inr (before @ Some directiveNode # after)"
      and nodes': "collectDirectiveNodes type' = Inr (before @ after)"
      and same: "t_ref type' = t_ref type"
      and skip: "map_of directiveVisitors (dn_name directiveNode) = None \<or>
                 (\<exists>visitorClass.
                    map_of directiveVisitors (dn_name directiveNode) = Some visitorClass \<and>
                    \<not> implementsVisitorMethod visitorClass methodName)"
  shows "visitDirectiveNode lib schema directiveVisitors declared context type methodName
           directiveNode = Inr None \<and>
         visitorSelector lib schema directiveVisitors declared context type methodName st
           = visitorSelector lib schema directiveVisitors declared context type' methodName st"
proof -
  have none: "visitDirectiveNode lib schema directiveVisitors declared context type methodName
           directiveNode = Inr None"
    using skip by (rule visitDirectiveNode_skipped)
  have eq: "visitDirectiveNode lib schema directiveVisitors declared context type' methodName
              = visitDirectiveNode lib schema directiveVisitors declared context type methodName"
    using same by (rule visitDirectiveNode_t_ref)
  have "forEachDirectiveNode
          (visitDirectiveNode lib schema directiveVisitors declared context type methodName)
          (before @ Some directiveNode # after) ([], events st)
        = forEachDirectiveNode
          (visitDirectiveNode lib schema directiveVisitors declared context type' methodName)
          (before @ after) ([], events st)"
    unfolding eq using none by (rule forEachDirectiveNode_skip)
  then show ?thesis
    using none nodes nodes' by (simp add: visitorSelector_def)
qed

theorem unregistered_or_unimplemented_occurrence_is_skipped_witness:
  "collectDirectiveNodes ex_title = Inr ([Some ex_upperNode] @ Some ex_deprecatedNode # [Some ex_lengthNode]) \<and>
   collectDirectiveNodes
       (ex_title\<lparr> astNode := Some \<lparr> directives = Some [ex_upperNode, ex_lengthNode] \<rparr> \<rparr>)
     = Inr ([Some ex_upperNode] @ [Some ex_lengthNode]) \<and>
   t_ref (ex_title\<lparr> astNode := Some \<lparr> directives = Some [ex_upperNode, ex_lengthNode] \<rparr> \<rparr>)
     = t_ref ex_title \<and>
   map_of ex_visitors (dn_name ex_deprecatedNode) = None \<and>
   visitDirectiveNode ex_lib ex_schema ex_visitors ex_declared 0 ex_title ''visitFieldDefinition''
     ex_deprecatedNode = Inr None \<and>
   visitorSelector ex_lib ex_schema ex_visitors ex_declared 0 ex_title ''visitFieldDefinition''
       ex_state
     = visitorSelector ex_lib ex_schema ex_visitors ex_declared 0
         (ex_title\<lparr> astNode := Some \<lparr> directives = Some [ex_upperNode, ex_lengthNode] \<rparr> \<rparr>)
         ''visitFieldDefinition'' ex_state \<and>
   collectDirectiveNodes ex_Book
     = Inr ([] @ Some ex_upperNode # [Some (ex_tagNode ''a''), Some (ex_tagNode ''b''),
                                     Some ex_deprecatedNode]) \<and>
   map_of ex_visitors (dn_name ex_upperNode) = Some ex_fieldVisitor \<and>
   \<not> implementsVisitorMethod ex_fieldVisitor ''visitObject'' \<and>
   visitDirectiveNode ex_lib ex_schema ex_visitors ex_declared 0 ex_Book ''visitObject''
     ex_upperNode = Inr None"
proof -
  let ?title' = "ex_title\<lparr> astNode := Some \<lparr> directives = Some [ex_upperNode, ex_lengthNode] \<rparr> \<rparr>"
  let ?book' = "ex_Book\<lparr> astNode := Some \<lparr> directives = Some [ex_tagNode ''a''] \<rparr> \<rparr>"
  have n1: "collectDirectiveNodes ex_title
              = Inr ([Some ex_upperNode] @ Some ex_deprecatedNode # [Some ex_lengthNode])"
    by (simp add: collectDirectiveNodes_def ex_title_def)
  have n2: "collectDirectiveNodes ?title' = Inr ([Some ex_upperNode] @ [Some ex_lengthNode])"
    by (simp add: collectDirectiveNodes_def ex_title_def)
  have r: "t_ref ?title' = t_ref ex_title"
    by simp
  have u: "map_of ex_visitors (dn_name ex_deprecatedNode) = None"
    by (simp add: ex_visitors_def ex_deprecatedNode_def)
  have u': "map_of ex_visitors (dn_name ex_deprecatedNode) = None \<or>
            (\<exists>visitorClass. map_of ex_visitors (dn_name ex_deprecatedNode) = Some visitorClass \<and>
                             \<not> implementsVisitorMethod visitorClass ''visitFieldDefinition'')"
    using u by (rule disjI1)
  note first = unregistered_or_unimplemented_occurrence_is_skipped
                 [OF n1 n2 r u', of ex_lib ex_schema ex_declared 0 ex_state]
  have b1: "collectDirectiveNodes ex_Book
     = Inr ([] @ Some ex_upperNode # [Some (ex_tagNode ''a''), Some (ex_tagNode ''b''),
                                     Some ex_deprecatedNode])"
    by (simp add: collectDirectiveNodes_def ex_Book_def concatenated_def)
  have b2: "collectDirectiveNodes
              (ex_Book\<lparr> astNode := Some \<lparr> directives = Some [ex_tagNode ''a''] \<rparr> \<rparr>)
     = Inr ([] @ [Some (ex_tagNode ''a''), Some (ex_tagNode ''b''), Some ex_deprecatedNode])"
    by (simp add: collectDirectiveNodes_def ex_Book_def concatenated_def)
  have br: "t_ref (ex_Book\<lparr> astNode := Some \<lparr> directives = Some [ex_tagNode ''a''] \<rparr> \<rparr>)
              = t_ref ex_Book"
    by simp
  have m: "map_of ex_visitors (dn_name ex_upperNode) = Some ex_fieldVisitor"
    by (simp add: ex_visitors_def ex_upperNode_def)
  have ni: "\<not> implementsVisitorMethod ex_fieldVisitor ''visitObject''"
    by (simp add: implementsVisitorMethod_def ex_fieldVisitor_def)
  have m': "map_of ex_visitors (dn_name ex_upperNode) = None \<or>
            (\<exists>visitorClass. map_of ex_visitors (dn_name ex_upperNode) = Some visitorClass \<and>
                             \<not> implementsVisitorMethod visitorClass ''visitObject'')"
    using m ni by blast
  note second = unregistered_or_unimplemented_occurrence_is_skipped
                 [OF b1 b2 br m', of ex_lib ex_schema ex_declared 0 ex_state]
  show ?thesis
    using n1 n2 r u first [THEN conjunct1] first [THEN conjunct2] b1 m ni second [THEN conjunct1]
    by (intro conjI)
qed

subsection \<open>The arguments of an instance\<close>

lemma coerceArguments_Inr:
  assumes "coerceArguments g argDefs argNodes acc = Inr args"
      and "distinct (map arg_name argDefs)"
  shows "(\<forall>argDef\<in>set argDefs.
            \<exists>r. coerceArgument g argDef (argumentNodeFor argNodes (arg_name argDef)) = Inr r \<and>
                map_of args (arg_name argDef)
                  = (case r of Some v \<Rightarrow> Some v | None \<Rightarrow> map_of acc (arg_name argDef))) \<and>
         (\<forall>n. n \<notin> arg_name ` set argDefs \<longrightarrow> map_of args n = map_of acc n)"
  using assms
proof (induction argDefs arbitrary: acc)
  case Nil
  then show ?case by simp
next
  case (Cons d ds)
  from Cons.prems(1) obtain r where
      r: "coerceArgument g d (argumentNodeFor argNodes (arg_name d)) = Inr r"
    by (auto split: sum.splits)
  define acc' where
    "acc' = (case r of None \<Rightarrow> acc | Some v \<Rightarrow> AList.update (arg_name d) v acc)"
  have run: "coerceArguments g ds argNodes acc' = Inr args"
    using Cons.prems(1) r by (simp add: acc'_def split: option.splits)
  have dist: "distinct (map arg_name ds)" and notin: "arg_name d \<notin> arg_name ` set ds"
    using Cons.prems(2) by auto
  note IH = Cons.IH [OF run dist]
  note IH1 = IH [THEN conjunct1, THEN bspec]
  note IH2 = IH [THEN conjunct2, rule_format]
  have head: "map_of args (arg_name d)
                = (case r of Some v \<Rightarrow> Some v | None \<Rightarrow> map_of acc (arg_name d))"
    using IH2 [OF notin] by (simp add: acc'_def update_conv' split: option.splits)
  have tail: "\<forall>argDef\<in>set ds.
            \<exists>r. coerceArgument g argDef (argumentNodeFor argNodes (arg_name argDef)) = Inr r \<and>
                map_of args (arg_name argDef)
                  = (case r of Some v \<Rightarrow> Some v | None \<Rightarrow> map_of acc (arg_name argDef))"
  proof
    fix argDef assume m: "argDef \<in> set ds"
    then have ne: "arg_name argDef \<noteq> arg_name d" using notin by (metis imageI)
    from IH1 [OF m] obtain r' where
        "coerceArgument g argDef (argumentNodeFor argNodes (arg_name argDef)) = Inr r'"
        "map_of args (arg_name argDef)
           = (case r' of Some v \<Rightarrow> Some v | None \<Rightarrow> map_of acc' (arg_name argDef))"
      by blast
    moreover have "map_of acc' (arg_name argDef) = map_of acc (arg_name argDef)"
      using ne by (simp add: acc'_def update_conv' split: option.splits)
    ultimately show "\<exists>r. coerceArgument g argDef (argumentNodeFor argNodes (arg_name argDef)) = Inr r \<and>
                map_of args (arg_name argDef)
                  = (case r of Some v \<Rightarrow> Some v | None \<Rightarrow> map_of acc (arg_name argDef))"
      by (auto split: option.splits)
  qed
  have others: "\<forall>n. n \<notin> arg_name ` set (d # ds) \<longrightarrow> map_of args n = map_of acc n"
  proof (intro allI impI)
    fix n assume n: "n \<notin> arg_name ` set (d # ds)"
    then have "n \<notin> arg_name ` set ds" by simp
    then have "map_of args n = map_of acc' n" by (rule IH2)
    moreover have "map_of acc' n = map_of acc n"
      using n by (auto simp: acc'_def update_conv' split: option.splits)
    ultimately show "map_of args n = map_of acc n" by simp
  qed
  have hd: "\<exists>r. coerceArgument g d (argumentNodeFor argNodes (arg_name d)) = Inr r \<and>
                map_of args (arg_name d)
                  = (case r of Some v \<Rightarrow> Some v | None \<Rightarrow> map_of acc (arg_name d))"
    using r head by blast
  have every: "\<forall>argDef\<in>set (d # ds).
            \<exists>r. coerceArgument g argDef (argumentNodeFor argNodes (arg_name argDef)) = Inr r \<and>
                map_of args (arg_name argDef)
                  = (case r of Some v \<Rightarrow> Some v | None \<Rightarrow> map_of acc (arg_name argDef))"
  proof
    fix argDef assume "argDef \<in> set (d # ds)"
    then consider "argDef = d" | "argDef \<in> set ds" by auto
    then show "\<exists>r. coerceArgument g argDef (argumentNodeFor argNodes (arg_name argDef)) = Inr r \<and>
                map_of args (arg_name argDef)
                  = (case r of Some v \<Rightarrow> Some v | None \<Rightarrow> map_of acc (arg_name argDef))"
    proof cases
      case 1
      show ?thesis unfolding 1 by (rule hd)
    next
      case 2
      with tail show ?thesis by (rule bspec)
    qed
  qed
  show ?case
    using every others by (rule conjI)
qed

lemma coerceArguments_Inl:
  "argDef \<in> set argDefs \<Longrightarrow>
   coerceArgument g argDef (argumentNodeFor argNodes (arg_name argDef)) = Inl e \<Longrightarrow>
   \<exists>e'. coerceArguments g argDefs argNodes acc = Inl e'"
proof (induction argDefs arbitrary: acc)
  case Nil
  then show ?case by simp
next
  case (Cons d ds)
  show ?case
  proof (cases "coerceArgument g d (argumentNodeFor argNodes (arg_name d))")
    case (Inl e0)
    then show ?thesis by simp
  next
    case (Inr r)
    then have "argDef \<in> set ds" using Cons.prems by auto
    from Cons.IH [OF this Cons.prems(2)] show ?thesis
      using Inr by (cases r) simp_all
  qed
qed

lemma find_filter_same:
  "(\<And>x. Q x \<Longrightarrow> R x) \<Longrightarrow> find Q (filter R xs) = find Q xs"
  by (induction xs) auto

lemma argumentNodeFor_filter:
  "name \<in> S \<Longrightarrow>
     argumentNodeFor (filter (\<lambda>arg. a_name arg \<in> S) argNodes) name = argumentNodeFor argNodes name"
proof -
  assume "name \<in> S"
  then have "find (\<lambda>arg. a_name arg = name) (filter (\<lambda>arg. a_name arg \<in> S) (rev argNodes))
               = find (\<lambda>arg. a_name arg = name) (rev argNodes)"
    by (intro find_filter_same) simp
  then show ?thesis
    by (simp add: argumentNodeFor_def rev_filter)
qed

lemma coerceArguments_same_nodes:
  "(\<And>argDef. argDef \<in> set argDefs \<Longrightarrow>
       argumentNodeFor argNodes' (arg_name argDef) = argumentNodeFor argNodes (arg_name argDef)) \<Longrightarrow>
   coerceArguments g argDefs argNodes' acc = coerceArguments g argDefs argNodes acc"
proof (induction argDefs arbitrary: acc)
  case Nil
  show ?case by simp
next
  case (Cons d ds)
  have h: "argumentNodeFor argNodes' (arg_name d) = argumentNodeFor argNodes (arg_name d)"
    by (rule Cons.prems) simp
  have t: "coerceArguments g ds argNodes' acc' = coerceArguments g ds argNodes acc'" for acc'
  proof (rule Cons.IH)
    fix argDef assume "argDef \<in> set ds"
    then have "argDef \<in> set (d # ds)" by simp
    then show "argumentNodeFor argNodes' (arg_name argDef)
                 = argumentNodeFor argNodes (arg_name argDef)"
      by (rule Cons.prems)
  qed
  show ?case
    by (simp only: coerceArguments.simps h t)
qed

lemma graphql_getArgumentValues_ignores_unknown:
  assumes "dn_arguments directiveNode = Some argNodes"
  shows "graphql_getArgumentValues g decl
     (directiveNode\<lparr> dn_arguments :=
        Some (filter (\<lambda>arg. a_name arg \<in> arg_name ` set (d_args decl)) argNodes) \<rparr>)
   = graphql_getArgumentValues g decl directiveNode"
proof -
  have "coerceArguments g (d_args decl)
          (filter (\<lambda>arg. a_name arg \<in> arg_name ` set (d_args decl)) argNodes) []
        = coerceArguments g (d_args decl) argNodes []"
  proof (rule coerceArguments_same_nodes)
    fix argDef assume "argDef \<in> set (d_args decl)"
    then have "arg_name argDef \<in> arg_name ` set (d_args decl)" by (rule imageI)
    then show "argumentNodeFor
                 (filter (\<lambda>arg. a_name arg \<in> arg_name ` set (d_args decl)) argNodes)
                 (arg_name argDef)
               = argumentNodeFor argNodes (arg_name argDef)"
      by (rule argumentNodeFor_filter)
  qed
  then show ?thesis
    using assms by (simp add: graphql_getArgumentValues_def)
qed

lemma visitDirectiveNode_declared:
  "map_of directiveVisitors (dn_name directiveNode) = Some visitorClass \<Longrightarrow>
   implementsVisitorMethod visitorClass methodName \<Longrightarrow>
   map_of declared (dn_name directiveNode) = Some decl \<Longrightarrow>
   visitDirectiveNode lib schema directiveVisitors declared context type methodName directiveNode
     = (case getArgumentValues lib decl directiveNode of
          Inl e \<Rightarrow> Inl e
        | Inr args \<Rightarrow>
            Inr (Some \<lparr> v_name = dn_name directiveNode, v_args = args,
                         v_visitedType = t_ref type, v_schema = schema, v_context = context \<rparr>))"
  by (simp add: visitDirectiveNode_def new_SchemaDirectiveVisitor_def split: sum.splits)

lemma visitDirectiveNode_same_arguments:
  assumes "dn_name directiveNode' = dn_name directiveNode"
      and "map_of declared (dn_name directiveNode) = Some decl"
      and "getArgumentValues lib decl directiveNode' = getArgumentValues lib decl directiveNode"
  shows "visitDirectiveNode lib schema directiveVisitors declared context type methodName
           directiveNode'
         = visitDirectiveNode lib schema directiveVisitors declared context type methodName
             directiveNode"
  using assms by (simp add: visitDirectiveNode_def Let_def split: option.splits)

lemma declared_arguments:
  assumes lib: "getArgumentValues lib = graphql_getArgumentValues g"
      and run: "visitDirectiveNode lib schema directiveVisitors declared context type methodName
                  directiveNode = Inr (Some visitor)"
      and decl: "map_of declared (dn_name directiveNode) = Some decl"
      and nodes: "dn_arguments directiveNode = Some argNodes"
      and dist: "distinct (map arg_name (d_args decl))"
  shows "(\<forall>n. n \<notin> arg_name ` set (d_args decl) \<longrightarrow> map_of (v_args visitor) n = None) \<and>
         (\<forall>argDef\<in>set (d_args decl).
            coerceArgument g argDef (argumentNodeFor argNodes (arg_name argDef))
              = Inr (map_of (v_args visitor) (arg_name argDef))) \<and>
         (\<forall>argDef\<in>set (d_args decl). \<forall>defaultValue.
            argumentNodeFor argNodes (arg_name argDef) = None \<longrightarrow>
            arg_defaultValue argDef = Some defaultValue \<longrightarrow>
            map_of (v_args visitor) (arg_name argDef) = Some defaultValue)"
proof -
  from visitDirectiveNode_Some [OF run] have
      "getArgumentValues lib decl directiveNode = Inr (v_args visitor)"
    using decl by auto
  then have co: "coerceArguments g (d_args decl) argNodes [] = Inr (v_args visitor)"
    using nodes by (simp add: lib graphql_getArgumentValues_def)
  note chr = coerceArguments_Inr [OF co dist]
  have unknown: "\<forall>n. n \<notin> arg_name ` set (d_args decl) \<longrightarrow> map_of (v_args visitor) n = None"
    using chr [THEN conjunct2] by simp
  have each: "\<forall>argDef\<in>set (d_args decl).
            coerceArgument g argDef (argumentNodeFor argNodes (arg_name argDef))
              = Inr (map_of (v_args visitor) (arg_name argDef))"
  proof
    fix argDef assume "argDef \<in> set (d_args decl)"
    with chr [THEN conjunct1] obtain r where
        r: "coerceArgument g argDef (argumentNodeFor argNodes (arg_name argDef)) = Inr r"
        and m: "map_of (v_args visitor) (arg_name argDef)
                  = (case r of Some v \<Rightarrow> Some v | None \<Rightarrow> map_of [] (arg_name argDef))"
      by blast
    have "map_of (v_args visitor) (arg_name argDef) = r"
      using m by (cases r) simp_all
    then show "coerceArgument g argDef (argumentNodeFor argNodes (arg_name argDef))
                 = Inr (map_of (v_args visitor) (arg_name argDef))"
      using r by simp
  qed
  have dflt: "\<forall>argDef\<in>set (d_args decl). \<forall>defaultValue.
            argumentNodeFor argNodes (arg_name argDef) = None \<longrightarrow>
            arg_defaultValue argDef = Some defaultValue \<longrightarrow>
            map_of (v_args visitor) (arg_name argDef) = Some defaultValue"
  proof (intro ballI allI impI)
    fix argDef defaultValue
    assume m: "argDef \<in> set (d_args decl)"
       and n: "argumentNodeFor argNodes (arg_name argDef) = None"
       and d: "arg_defaultValue argDef = Some defaultValue"
    have "coerceArgument g argDef (argumentNodeFor argNodes (arg_name argDef))
            = Inr (Some defaultValue)"
      by (simp add: coerceArgument_def n d)
    moreover have "coerceArgument g argDef (argumentNodeFor argNodes (arg_name argDef))
                     = Inr (map_of (v_args visitor) (arg_name argDef))"
      using each m by (rule bspec)
    ultimately show "map_of (v_args visitor) (arg_name argDef) = Some defaultValue"
      by simp
  qed
  show ?thesis
    using unknown each dflt by (intro conjI)
qed

lemma mismatch_is_fatal:
  assumes lib: "getArgumentValues lib = graphql_getArgumentValues g"
      and vc: "map_of directiveVisitors (dn_name directiveNode) = Some visitorClass"
      and impl: "implementsVisitorMethod visitorClass methodName"
      and decl: "map_of declared (dn_name directiveNode) = Some decl"
      and nodes: "dn_arguments directiveNode = Some argNodes"
      and def: "argDef \<in> set (d_args decl)"
      and node: "argumentNodeFor argNodes (arg_name argDef) = Some node"
      and lit: "\<not> isVariable g (a_value node)" "\<not> isNullValue g (a_value node)"
      and bad: "valueFromAST g (a_value node) (arg_type argDef) = None"
  shows "\<exists>e. visitDirectiveNode lib schema directiveVisitors declared context type methodName
               directiveNode = Inl e"
proof -
  have "coerceArgument g argDef (argumentNodeFor argNodes (arg_name argDef))
          = Inl (GraphQLError (arg_name argDef))"
    using lit bad by (simp add: coerceArgument_def node)
  from coerceArguments_Inl [OF def this] obtain e where
      "coerceArguments g (d_args decl) argNodes [] = Inl e"
    by blast
  then have "getArgumentValues lib decl directiveNode = Inl e"
    using nodes by (simp add: lib graphql_getArgumentValues_def)
  then have "visitDirectiveNode lib schema directiveVisitors declared context type methodName
               directiveNode = Inl e"
    using vc impl decl by (simp add: visitDirectiveNode_def)
  then show ?thesis by blast
qed

lemma unknown_arguments_are_ignored:
  assumes lib: "getArgumentValues lib = graphql_getArgumentValues g"
      and decl: "map_of declared (dn_name directiveNode) = Some decl"
      and nodes: "dn_arguments directiveNode = Some argNodes"
  shows "visitDirectiveNode lib schema directiveVisitors declared context type methodName
           (directiveNode\<lparr> dn_arguments :=
              Some (filter (\<lambda>arg. a_name arg \<in> arg_name ` set (d_args decl)) argNodes) \<rparr>)
         = visitDirectiveNode lib schema directiveVisitors declared context type methodName
             directiveNode"
proof (rule visitDirectiveNode_same_arguments [OF _ decl])
  show "dn_name (directiveNode\<lparr> dn_arguments :=
              Some (filter (\<lambda>arg. a_name arg \<in> arg_name ` set (d_args decl)) argNodes) \<rparr>)
          = dn_name directiveNode"
    by simp
  show "getArgumentValues lib decl
          (directiveNode\<lparr> dn_arguments :=
              Some (filter (\<lambda>arg. a_name arg \<in> arg_name ` set (d_args decl)) argNodes) \<rparr>)
        = getArgumentValues lib decl directiveNode"
    unfolding lib using nodes by (rule graphql_getArgumentValues_ignores_unknown)
qed

text \<open>The occurrence \<^verbatim>\<open>@length(min: 1)\<close> on the field of the example.\<close>

lemma ex_min_run:
  "visitDirectiveNode ex_lib ex_schema ex_visitors ex_declared 0 ex_title ''visitFieldDefinition''
     ex_minNode = Inr (Some (ex_instance ''length'' [(''max'', ''10'')] 2))"
  by code_simp

text \<open>
  C3. For an occurrence that yields an instance. With a declaration under its name, the
  instance's arguments are what \<^verbatim>\<open>getArgumentValues\<close> returns for the declaration and
  the occurrence, and an exception of \<^verbatim>\<open>getArgumentValues\<close> is the exception of the loop
  body. With the library's \<^verbatim>\<open>getArgumentValues\<close> that means: the arguments have an entry
  for declared arguments only; for each declared argument the entry is the coercion of
  the last argument node of that name against the declared type, or the declared
  default when there is no such node; a literal that does not fit the declared type is
  a fatal error; and argument nodes whose names the declaration does not define are
  ignored, the result being that for the occurrence without them. Without a
  declaration, each supplied argument name is mapped to the untyped conversion of its
  value (of the last argument of that name), and an occurrence without arguments
  yields an instance with no arguments.
\<close>

theorem instance_arguments:
  fixes lib :: "('vn, 'val, ('ty, 'val) GraphQLArgument list) library"
    and g :: "('vn, 'ty, 'val) graphql"
  shows
  "(\<forall>visitor decl.
      visitDirectiveNode lib schema directiveVisitors declared context type methodName
        directiveNode = Inr (Some visitor) \<longrightarrow>
      map_of declared (dn_name directiveNode) = Some decl \<longrightarrow>
      getArgumentValues lib decl directiveNode = Inr (v_args visitor)) \<and>
   (\<forall>visitorClass decl e.
      map_of directiveVisitors (dn_name directiveNode) = Some visitorClass \<longrightarrow>
      implementsVisitorMethod visitorClass methodName \<longrightarrow>
      map_of declared (dn_name directiveNode) = Some decl \<longrightarrow>
      getArgumentValues lib decl directiveNode = Inl e \<longrightarrow>
      visitDirectiveNode lib schema directiveVisitors declared context type methodName
        directiveNode = Inl e) \<and>
   (getArgumentValues lib = graphql_getArgumentValues g \<longrightarrow>
      (\<forall>visitor decl argNodes.
         visitDirectiveNode lib schema directiveVisitors declared context type methodName
           directiveNode = Inr (Some visitor) \<longrightarrow>
         map_of declared (dn_name directiveNode) = Some decl \<longrightarrow>
         dn_arguments directiveNode = Some argNodes \<longrightarrow>
         distinct (map arg_name (d_args decl)) \<longrightarrow>
         (\<forall>n. n \<notin> arg_name ` set (d_args decl) \<longrightarrow> map_of (v_args visitor) n = None) \<and>
         (\<forall>argDef\<in>set (d_args decl).
            coerceArgument g argDef (argumentNodeFor argNodes (arg_name argDef))
              = Inr (map_of (v_args visitor) (arg_name argDef))) \<and>
         (\<forall>argDef\<in>set (d_args decl). \<forall>defaultValue.
            argumentNodeFor argNodes (arg_name argDef) = None \<longrightarrow>
            arg_defaultValue argDef = Some defaultValue \<longrightarrow>
            map_of (v_args visitor) (arg_name argDef) = Some defaultValue)) \<and>
      (\<forall>visitorClass decl argNodes argDef node.
         map_of directiveVisitors (dn_name directiveNode) = Some visitorClass \<longrightarrow>
         implementsVisitorMethod visitorClass methodName \<longrightarrow>
         map_of declared (dn_name directiveNode) = Some decl \<longrightarrow>
         dn_arguments directiveNode = Some argNodes \<longrightarrow>
         argDef \<in> set (d_args decl) \<longrightarrow>
         argumentNodeFor argNodes (arg_name argDef) = Some node \<longrightarrow>
         \<not> isVariable g (a_value node) \<longrightarrow>
         \<not> isNullValue g (a_value node) \<longrightarrow>
         valueFromAST g (a_value node) (arg_type argDef) = None \<longrightarrow>
         (\<exists>e. visitDirectiveNode lib schema directiveVisitors declared context type methodName
                directiveNode = Inl e)) \<and>
      (\<forall>decl argNodes.
         map_of declared (dn_name directiveNode) = Some decl \<longrightarrow>
         dn_arguments directiveNode = Some argNodes \<longrightarrow>
         visitDirectiveNode lib schema directiveVisitors declared context type methodName
           (directiveNode\<lparr> dn_arguments :=
              Some (filter (\<lambda>arg. a_name arg \<in> arg_name ` set (d_args decl)) argNodes) \<rparr>)
         = visitDirectiveNode lib schema directiveVisitors declared context type methodName
             directiveNode)) \<and>
   (\<forall>visitor.
      visitDirectiveNode lib schema directiveVisitors declared context type methodName
        directiveNode = Inr (Some visitor) \<longrightarrow>
      map_of declared (dn_name directiveNode) = None \<longrightarrow>
      (dn_arguments directiveNode = None \<longrightarrow> v_args visitor = []) \<and>
      (\<forall>arguments. dn_arguments directiveNode = Some arguments \<longrightarrow>
         (\<forall>arg\<in>set arguments. \<exists>v. valueFromASTUntyped lib (a_value arg) = Inr v) \<and>
         (\<forall>n. map_of (v_args visitor) n =
            (case find (\<lambda>arg. a_name arg = n) (rev arguments) of
               None \<Rightarrow> None
             | Some arg \<Rightarrow>
                 (case valueFromASTUntyped lib (a_value arg) of
                    Inr v \<Rightarrow> Some v
                  | Inl e \<Rightarrow> None))))) \<and>
   (\<forall>visitorClass.
      map_of directiveVisitors (dn_name directiveNode) = Some visitorClass \<longrightarrow>
      implementsVisitorMethod visitorClass methodName \<longrightarrow>
      map_of declared (dn_name directiveNode) = None \<longrightarrow>
      dn_arguments directiveNode = None \<or> dn_arguments directiveNode = Some [] \<longrightarrow>
      visitDirectiveNode lib schema directiveVisitors declared context type methodName
        directiveNode
        = Inr (Some \<lparr> v_name = dn_name directiveNode, v_args = [],
                       v_visitedType = t_ref type, v_schema = schema, v_context = context \<rparr>))"
proof -
  have a: "\<And>visitor decl.
      visitDirectiveNode lib schema directiveVisitors declared context type methodName
        directiveNode = Inr (Some visitor) \<Longrightarrow>
      map_of declared (dn_name directiveNode) = Some decl \<Longrightarrow>
      getArgumentValues lib decl directiveNode = Inr (v_args visitor)"
    by (drule visitDirectiveNode_Some) auto
  have b: "\<And>visitorClass decl e.
      map_of directiveVisitors (dn_name directiveNode) = Some visitorClass \<Longrightarrow>
      implementsVisitorMethod visitorClass methodName \<Longrightarrow>
      map_of declared (dn_name directiveNode) = Some decl \<Longrightarrow>
      getArgumentValues lib decl directiveNode = Inl e \<Longrightarrow>
      visitDirectiveNode lib schema directiveVisitors declared context type methodName
        directiveNode = Inl e"
    by (simp add: visitDirectiveNode_def)
  have c: "\<And>visitor.
      visitDirectiveNode lib schema directiveVisitors declared context type methodName
        directiveNode = Inr (Some visitor) \<Longrightarrow>
      map_of declared (dn_name directiveNode) = None \<Longrightarrow>
      (dn_arguments directiveNode = None \<longrightarrow> v_args visitor = []) \<and>
      (\<forall>arguments. dn_arguments directiveNode = Some arguments \<longrightarrow>
         (\<forall>arg\<in>set arguments. \<exists>v. valueFromASTUntyped lib (a_value arg) = Inr v) \<and>
         (\<forall>n. map_of (v_args visitor) n =
            (case find (\<lambda>arg. a_name arg = n) (rev arguments) of
               None \<Rightarrow> None
             | Some arg \<Rightarrow>
                 (case valueFromASTUntyped lib (a_value arg) of
                    Inr v \<Rightarrow> Some v
                  | Inl e \<Rightarrow> None))))"
  proof -
    fix visitor
    assume "visitDirectiveNode lib schema directiveVisitors declared context type methodName
              directiveNode = Inr (Some visitor)"
       and "map_of declared (dn_name directiveNode) = None"
    then have u: "untypedArguments lib directiveNode = Inr (v_args visitor)"
      by (auto dest: visitDirectiveNode_Some)
    show "(dn_arguments directiveNode = None \<longrightarrow> v_args visitor = []) \<and>
      (\<forall>arguments. dn_arguments directiveNode = Some arguments \<longrightarrow>
         (\<forall>arg\<in>set arguments. \<exists>v. valueFromASTUntyped lib (a_value arg) = Inr v) \<and>
         (\<forall>n. map_of (v_args visitor) n =
            (case find (\<lambda>arg. a_name arg = n) (rev arguments) of
               None \<Rightarrow> None
             | Some arg \<Rightarrow>
                 (case valueFromASTUntyped lib (a_value arg) of
                    Inr v \<Rightarrow> Some v
                  | Inl e \<Rightarrow> None))))"
    proof (cases "dn_arguments directiveNode")
      case None
      then show ?thesis using u by (simp add: untypedArguments_def)
    next
      case (Some arguments)
      then have "convertArguments (valueFromASTUntyped lib) arguments [] = Inr (v_args visitor)"
        using u by (simp add: untypedArguments_def)
      from convertArguments_Inr [OF this] show ?thesis
        using Some by (simp split: option.splits)
    qed
  qed
  have d: "\<And>visitorClass.
      map_of directiveVisitors (dn_name directiveNode) = Some visitorClass \<Longrightarrow>
      implementsVisitorMethod visitorClass methodName \<Longrightarrow>
      map_of declared (dn_name directiveNode) = None \<Longrightarrow>
      dn_arguments directiveNode = None \<or> dn_arguments directiveNode = Some [] \<Longrightarrow>
      visitDirectiveNode lib schema directiveVisitors declared context type methodName
        directiveNode
        = Inr (Some \<lparr> v_name = dn_name directiveNode, v_args = [],
                       v_visitedType = t_ref type, v_schema = schema, v_context = context \<rparr>)"
    by (auto simp: visitDirectiveNode_def untypedArguments_def new_SchemaDirectiveVisitor_def)
  have ab: "(\<forall>visitor decl.
      visitDirectiveNode lib schema directiveVisitors declared context type methodName
        directiveNode = Inr (Some visitor) \<longrightarrow>
      map_of declared (dn_name directiveNode) = Some decl \<longrightarrow>
      getArgumentValues lib decl directiveNode = Inr (v_args visitor)) \<and>
   (\<forall>visitorClass decl e.
      map_of directiveVisitors (dn_name directiveNode) = Some visitorClass \<longrightarrow>
      implementsVisitorMethod visitorClass methodName \<longrightarrow>
      map_of declared (dn_name directiveNode) = Some decl \<longrightarrow>
      getArgumentValues lib decl directiveNode = Inl e \<longrightarrow>
      visitDirectiveNode lib schema directiveVisitors declared context type methodName
        directiveNode = Inl e)"
    using a b by blast
  have gh: "(\<forall>visitor.
      visitDirectiveNode lib schema directiveVisitors declared context type methodName
        directiveNode = Inr (Some visitor) \<longrightarrow>
      map_of declared (dn_name directiveNode) = None \<longrightarrow>
      (dn_arguments directiveNode = None \<longrightarrow> v_args visitor = []) \<and>
      (\<forall>arguments. dn_arguments directiveNode = Some arguments \<longrightarrow>
         (\<forall>arg\<in>set arguments. \<exists>v. valueFromASTUntyped lib (a_value arg) = Inr v) \<and>
         (\<forall>n. map_of (v_args visitor) n =
            (case find (\<lambda>arg. a_name arg = n) (rev arguments) of
               None \<Rightarrow> None
             | Some arg \<Rightarrow>
                 (case valueFromASTUntyped lib (a_value arg) of
                    Inr v \<Rightarrow> Some v
                  | Inl e \<Rightarrow> None))))) \<and>
   (\<forall>visitorClass.
      map_of directiveVisitors (dn_name directiveNode) = Some visitorClass \<longrightarrow>
      implementsVisitorMethod visitorClass methodName \<longrightarrow>
      map_of declared (dn_name directiveNode) = None \<longrightarrow>
      dn_arguments directiveNode = None \<or> dn_arguments directiveNode = Some [] \<longrightarrow>
      visitDirectiveNode lib schema directiveVisitors declared context type methodName
        directiveNode
        = Inr (Some \<lparr> v_name = dn_name directiveNode, v_args = [],
                       v_visitedType = t_ref type, v_schema = schema, v_context = context \<rparr>))"
    using c d by blast
  have l1: "\<forall>visitor decl argNodes.
         visitDirectiveNode lib schema directiveVisitors declared context type methodName
           directiveNode = Inr (Some visitor) \<longrightarrow>
         map_of declared (dn_name directiveNode) = Some decl \<longrightarrow>
         dn_arguments directiveNode = Some argNodes \<longrightarrow>
         distinct (map arg_name (d_args decl)) \<longrightarrow>
         (\<forall>n. n \<notin> arg_name ` set (d_args decl) \<longrightarrow> map_of (v_args visitor) n = None) \<and>
         (\<forall>argDef\<in>set (d_args decl).
            coerceArgument g argDef (argumentNodeFor argNodes (arg_name argDef))
              = Inr (map_of (v_args visitor) (arg_name argDef))) \<and>
         (\<forall>argDef\<in>set (d_args decl). \<forall>defaultValue.
            argumentNodeFor argNodes (arg_name argDef) = None \<longrightarrow>
            arg_defaultValue argDef = Some defaultValue \<longrightarrow>
            map_of (v_args visitor) (arg_name argDef) = Some defaultValue)"
    if lib: "getArgumentValues lib = graphql_getArgumentValues g"
    by (intro allI impI) (rule declared_arguments [OF lib])
  have l2: "\<forall>visitorClass decl argNodes argDef node.
         map_of directiveVisitors (dn_name directiveNode) = Some visitorClass \<longrightarrow>
         implementsVisitorMethod visitorClass methodName \<longrightarrow>
         map_of declared (dn_name directiveNode) = Some decl \<longrightarrow>
         dn_arguments directiveNode = Some argNodes \<longrightarrow>
         argDef \<in> set (d_args decl) \<longrightarrow>
         argumentNodeFor argNodes (arg_name argDef) = Some node \<longrightarrow>
         \<not> isVariable g (a_value node) \<longrightarrow>
         \<not> isNullValue g (a_value node) \<longrightarrow>
         valueFromAST g (a_value node) (arg_type argDef) = None \<longrightarrow>
         (\<exists>e. visitDirectiveNode lib schema directiveVisitors declared context type methodName
                directiveNode = Inl e)"
    if lib: "getArgumentValues lib = graphql_getArgumentValues g"
    by (intro allI impI) (rule mismatch_is_fatal [OF lib])
  have l3: "\<forall>decl argNodes.
         map_of declared (dn_name directiveNode) = Some decl \<longrightarrow>
         dn_arguments directiveNode = Some argNodes \<longrightarrow>
         visitDirectiveNode lib schema directiveVisitors declared context type methodName
           (directiveNode\<lparr> dn_arguments :=
              Some (filter (\<lambda>arg. a_name arg \<in> arg_name ` set (d_args decl)) argNodes) \<rparr>)
         = visitDirectiveNode lib schema directiveVisitors declared context type methodName
             directiveNode"
    if lib: "getArgumentValues lib = graphql_getArgumentValues g"
    by (intro allI impI) (rule unknown_arguments_are_ignored [OF lib])
  show ?thesis
    using ab [THEN conjunct1] ab [THEN conjunct2] l1 l2 l3 gh [THEN conjunct1] gh [THEN conjunct2]
    by (intro conjI impI)
qed

theorem instance_arguments_witness:
  "getArgumentValues ex_lib = graphql_getArgumentValues ex_graphql \<and>
   visitDirectiveNode ex_lib ex_schema ex_visitors ex_declared 0 ex_title ''visitFieldDefinition''
     ex_lengthNode = Inr (Some (ex_instance ''length'' [(''max'', ''50'')] 2)) \<and>
   map_of ex_declared (dn_name ex_lengthNode) = Some ex_length \<and>
   getArgumentValues ex_lib ex_length ex_lengthNode
     = Inr (v_args (ex_instance ''length'' [(''max'', ''50'')] 2)) \<and>
   map_of ex_visitors (dn_name ex_wordNode) = Some ex_fieldVisitor \<and>
   implementsVisitorMethod ex_fieldVisitor ''visitFieldDefinition'' \<and>
   map_of ex_declared (dn_name ex_wordNode) = Some ex_length \<and>
   getArgumentValues ex_lib ex_length ex_wordNode = Inl (GraphQLError ''max'') \<and>
   visitDirectiveNode ex_lib ex_schema ex_visitors ex_declared 0 ex_title ''visitFieldDefinition''
     ex_wordNode = Inl (GraphQLError ''max'') \<and>
   visitDirectiveNode ex_lib ex_schema ex_visitors ex_declared 0 ex_title ''visitFieldDefinition''
     ex_minNode = Inr (Some (ex_instance ''length'' [(''max'', ''10'')] 2)) \<and>
   map_of ex_declared (dn_name ex_minNode) = Some ex_length \<and>
   dn_arguments ex_minNode = Some [\<lparr> a_name = ''min'', a_value = ''1'' \<rparr>] \<and>
   distinct (map arg_name (d_args ex_length)) \<and>
   ''min'' \<notin> arg_name ` set (d_args ex_length) \<and>
   map_of (v_args (ex_instance ''length'' [(''max'', ''10'')] 2)) ''min'' = None \<and>
   \<lparr> arg_name = ''max'', arg_type = ''Int'', arg_defaultValue = Some ''10'' \<rparr>
     \<in> set (d_args ex_length) \<and>
   argumentNodeFor [\<lparr> a_name = ''min'', a_value = ''1'' \<rparr>] ''max'' = None \<and>
   map_of (v_args (ex_instance ''length'' [(''max'', ''10'')] 2)) ''max'' = Some ''10'' \<and>
   dn_arguments ex_wordNode = Some [\<lparr> a_name = ''max'', a_value = ''long'' \<rparr>] \<and>
   argumentNodeFor [\<lparr> a_name = ''max'', a_value = ''long'' \<rparr>] ''max''
     = Some \<lparr> a_name = ''max'', a_value = ''long'' \<rparr> \<and>
   \<not> isVariable ex_graphql ''long'' \<and>
   \<not> isNullValue ex_graphql ''long'' \<and>
   valueFromAST ex_graphql ''long'' ''Int'' = None \<and>
   (\<exists>e. visitDirectiveNode ex_lib ex_schema ex_visitors ex_declared 0 ex_title
          ''visitFieldDefinition'' ex_wordNode = Inl e) \<and>
   visitDirectiveNode ex_lib ex_schema ex_visitors ex_declared 0 ex_title ''visitFieldDefinition''
     (ex_minNode\<lparr> dn_arguments :=
        Some (filter (\<lambda>arg. a_name arg \<in> arg_name ` set (d_args ex_length))
                [\<lparr> a_name = ''min'', a_value = ''1'' \<rparr>]) \<rparr>)
     = visitDirectiveNode ex_lib ex_schema ex_visitors ex_declared 0 ex_title
         ''visitFieldDefinition'' ex_minNode \<and>
   visitDirectiveNode ex_lib ex_schema ex_visitors ex_declared 0 ex_Book ''visitObject''
     (ex_tagNode ''a'') = Inr (Some (ex_instance ''tag'' [(''name'', ''a'')] 1)) \<and>
   map_of ex_declared (dn_name (ex_tagNode ''a'')) = None \<and>
   dn_arguments (ex_tagNode ''a'') = Some [\<lparr> a_name = ''name'', a_value = ''a'' \<rparr>] \<and>
   map_of (v_args (ex_instance ''tag'' [(''name'', ''a'')] 1)) ''name'' = Some ''a'' \<and>
   map_of ex_visitors (dn_name ex_upperNode) = Some ex_fieldVisitor \<and>
   map_of ex_declared (dn_name ex_upperNode) = None \<and>
   (dn_arguments ex_upperNode = None \<or> dn_arguments ex_upperNode = Some []) \<and>
   visitDirectiveNode ex_lib ex_schema ex_visitors ex_declared 0 ex_title ''visitFieldDefinition''
     ex_upperNode
     = Inr (Some \<lparr> v_name = dn_name ex_upperNode, v_args = [], v_visitedType = t_ref ex_title,
                    v_schema = ex_schema, v_context = 0 \<rparr>)"
proof -
  have lib: "getArgumentValues ex_lib = graphql_getArgumentValues ex_graphql"
    by (simp add: ex_lib_def)
  note at_length = instance_arguments
      [of ex_lib ex_schema ex_visitors ex_declared 0 ex_title "''visitFieldDefinition''" ex_lengthNode ex_graphql]
  note at_word = instance_arguments
      [of ex_lib ex_schema ex_visitors ex_declared 0 ex_title "''visitFieldDefinition''" ex_wordNode ex_graphql]
  note at_min = instance_arguments
      [of ex_lib ex_schema ex_visitors ex_declared 0 ex_title "''visitFieldDefinition''" ex_minNode ex_graphql]
  note at_tag = instance_arguments
      [of ex_lib ex_schema ex_visitors ex_declared 0 ex_Book "''visitObject''" "ex_tagNode ''a''" ex_graphql]
  note at_upper = instance_arguments
      [of ex_lib ex_schema ex_visitors ex_declared 0 ex_title "''visitFieldDefinition''" ex_upperNode ex_graphql]
  have l1: "visitDirectiveNode ex_lib ex_schema ex_visitors ex_declared 0 ex_title
              ''visitFieldDefinition'' ex_lengthNode
            = Inr (Some (ex_instance ''length'' [(''max'', ''50'')] 2))"
    by code_simp
  have l2: "map_of ex_declared (dn_name ex_lengthNode) = Some ex_length"
    by (simp add: ex_declared_def ex_lengthNode_def)
  note l3 = at_length [THEN conjunct1, rule_format, OF l1 l2]
  have w1: "map_of ex_visitors (dn_name ex_wordNode) = Some ex_fieldVisitor"
    by (simp add: ex_visitors_def ex_wordNode_def)
  have w2: "implementsVisitorMethod ex_fieldVisitor ''visitFieldDefinition''"
    by (simp add: implementsVisitorMethod_def ex_fieldVisitor_def)
  have w3: "map_of ex_declared (dn_name ex_wordNode) = Some ex_length"
    by (simp add: ex_declared_def ex_wordNode_def)
  have w4: "getArgumentValues ex_lib ex_length ex_wordNode = Inl (GraphQLError ''max'')"
    by code_simp
  note w5 = at_word [THEN conjunct2, THEN conjunct1, rule_format, OF w1 w2 w3 w4]
  have m2: "map_of ex_declared (dn_name ex_minNode) = Some ex_length"
    by (simp add: ex_declared_def ex_minNode_def)
  have m3: "dn_arguments ex_minNode = Some [\<lparr> a_name = ''min'', a_value = ''1'' \<rparr>]"
    by (simp add: ex_minNode_def)
  have m4: "distinct (map arg_name (d_args ex_length))"
    by (simp add: ex_length_def)
  have m5: "''min'' \<notin> arg_name ` set (d_args ex_length)"
    by (simp add: ex_length_def)
  note declared = at_min [THEN conjunct2, THEN conjunct2, THEN conjunct1, THEN mp, OF lib]
  note coerced = declared [THEN conjunct1, rule_format, OF ex_min_run m2 m3 m4]
  note m6 = coerced [THEN conjunct1, rule_format, OF m5]
  have m7: "\<lparr> arg_name = ''max'', arg_type = ''Int'', arg_defaultValue = Some ''10'' \<rparr>
              \<in> set (d_args ex_length)"
    by (simp add: ex_length_def)
  have m8: "argumentNodeFor [\<lparr> a_name = ''min'', a_value = ''1'' \<rparr>] ''max'' = None"
    by (simp add: argumentNodeFor_def)
  have m9: "map_of (v_args (ex_instance ''length'' [(''max'', ''10'')] 2)) ''max'' = Some ''10''"
    using coerced [THEN conjunct2, THEN conjunct2, THEN bspec, OF m7, rule_format,
                   of "''10''"] m8
    by simp
  have x1: "dn_arguments ex_wordNode = Some [\<lparr> a_name = ''max'', a_value = ''long'' \<rparr>]"
    by (simp add: ex_wordNode_def)
  have x2: "argumentNodeFor [\<lparr> a_name = ''max'', a_value = ''long'' \<rparr>] ''max''
              = Some \<lparr> a_name = ''max'', a_value = ''long'' \<rparr>"
    by (simp add: argumentNodeFor_def)
  have x3: "\<not> isVariable ex_graphql ''long''"
    by (simp add: ex_graphql_def)
  have x4: "\<not> isNullValue ex_graphql ''long''"
    by (simp add: ex_graphql_def)
  have x5: "valueFromAST ex_graphql ''long'' ''Int'' = None"
    by (simp add: ex_graphql_def ex_valueFromAST_def)
  have x6: "\<exists>e. visitDirectiveNode ex_lib ex_schema ex_visitors ex_declared 0 ex_title
                ''visitFieldDefinition'' ex_wordNode = Inl e"
    using at_word [THEN conjunct2, THEN conjunct2, THEN conjunct1, THEN mp, OF lib,
                   THEN conjunct2, THEN conjunct1, rule_format,
                   OF w1 w2 w3 x1 m7]
          x2 x3 x4 x5
    by simp
  note f1 = declared [THEN conjunct2, THEN conjunct2, rule_format, OF m2 m3]
  have t1: "visitDirectiveNode ex_lib ex_schema ex_visitors ex_declared 0 ex_Book ''visitObject''
              (ex_tagNode ''a'') = Inr (Some (ex_instance ''tag'' [(''name'', ''a'')] 1))"
    by code_simp
  have t2: "map_of ex_declared (dn_name (ex_tagNode ''a'')) = None"
    by (simp add: ex_declared_def ex_tagNode_def)
  have t3: "dn_arguments (ex_tagNode ''a'') = Some [\<lparr> a_name = ''name'', a_value = ''a'' \<rparr>]"
    by (simp add: ex_tagNode_def)
  note untyped = at_tag
      [THEN conjunct2, THEN conjunct2, THEN conjunct2, THEN conjunct1, rule_format,
       OF t1 t2, THEN conjunct2, rule_format, OF t3, THEN conjunct2, rule_format, of "''name''"]
  have t4: "map_of (v_args (ex_instance ''tag'' [(''name'', ''a'')] 1)) ''name'' = Some ''a''"
    using untyped by (simp add: ex_lib_def)
  have u1: "map_of ex_visitors (dn_name ex_upperNode) = Some ex_fieldVisitor"
    by (simp add: ex_visitors_def ex_upperNode_def)
  have u2: "map_of ex_declared (dn_name ex_upperNode) = None"
    by (simp add: ex_declared_def ex_upperNode_def)
  have u3: "dn_arguments ex_upperNode = None \<or> dn_arguments ex_upperNode = Some []"
    by (simp add: ex_upperNode_def)
  note empty = at_upper
      [THEN conjunct2, THEN conjunct2, THEN conjunct2, THEN conjunct2, rule_format,
       OF u1 w2 u2 u3]
  show ?thesis
    using lib l1 l2 l3 w1 w2 w3 w4 w5 ex_min_run m2 m3 m4 m5 m6 m7 m8 m9
          x1 x2 x3 x4 x5 x6 f1 t1 t2 t3 t4 u1 u2 u3 empty
    by (intro conjI)
qed

text \<open>
  An argument name that the declaration does not define is no fatal error. The
  occurrence \<^verbatim>\<open>@length(min: 1)\<close> on the field of the example, with \<^verbatim>\<open>@length\<close> declared
  with the one argument \<^verbatim>\<open>max\<close>, yields an instance, whose arguments hold the default
  of \<^verbatim>\<open>max\<close>.
\<close>

theorem unknown_argument_name_is_not_fatal:
  "map_of ex_visitors (dn_name ex_minNode) = Some ex_fieldVisitor \<and>
   implementsVisitorMethod ex_fieldVisitor ''visitFieldDefinition'' \<and>
   map_of ex_declared (dn_name ex_minNode) = Some ex_length \<and>
   map arg_name (d_args ex_length) = [''max''] \<and>
   dn_arguments ex_minNode = Some [\<lparr> a_name = ''min'', a_value = ''1'' \<rparr>] \<and>
   visitDirectiveNode ex_lib ex_schema ex_visitors ex_declared 0 ex_title ''visitFieldDefinition''
     ex_minNode = Inr (Some (ex_instance ''length'' [(''max'', ''10'')] 2))"
proof -
  have a: "map_of ex_visitors (dn_name ex_minNode) = Some ex_fieldVisitor"
    by (simp add: ex_visitors_def ex_minNode_def)
  have b: "implementsVisitorMethod ex_fieldVisitor ''visitFieldDefinition''"
    by (simp add: implementsVisitorMethod_def ex_fieldVisitor_def)
  have c: "map_of ex_declared (dn_name ex_minNode) = Some ex_length"
    by (simp add: ex_declared_def ex_minNode_def)
  have d: "map arg_name (d_args ex_length) = [''max'']"
    by (simp add: ex_length_def)
  have e: "dn_arguments ex_minNode = Some [\<lparr> a_name = ''min'', a_value = ''1'' \<rparr>]"
    by (simp add: ex_minNode_def)
  show ?thesis
    using a b c d e ex_min_run by (intro conjI)
qed

text \<open>
  C5. The directive nodes that the selector goes through are those of the element's
  definition followed by those of its extension nodes, in the order of the extension
  nodes; the selector treats the element exactly as it treats the same element with
  all of these nodes on its definition and no extension nodes.
\<close>

theorem extension_directives_are_appended:
  assumes "(case astNode type of None \<Rightarrow> Some [] | Some node \<Rightarrow> directives node) = Some base"
      and "map directives (case extensionASTNodes type of None \<Rightarrow> [] | Some exts \<Rightarrow> exts)
             = map Some extDirectives"
  shows "collectDirectiveNodes type = Inr (map Some (base @ concat extDirectives)) \<and>
         visitorSelector lib schema directiveVisitors declared context type methodName st
           = visitorSelector lib schema directiveVisitors declared context
               (type\<lparr> astNode := Some \<lparr> directives = Some (base @ concat extDirectives) \<rparr>,
                      extensionASTNodes := None \<rparr>)
               methodName st"
proof -
  let ?merged = "type\<lparr> astNode := Some \<lparr> directives = Some (base @ concat extDirectives) \<rparr>,
                       extensionASTNodes := None \<rparr>"
  have a: "collectDirectiveNodes type = Inr (map Some (base @ concat extDirectives))"
    using assms by (rule collectDirectiveNodes_merged)
  have b: "collectDirectiveNodes ?merged = Inr (map Some (base @ concat extDirectives))"
    by (simp add: collectDirectiveNodes_def)
  have c: "visitDirectiveNode lib schema directiveVisitors declared context ?merged methodName
             = visitDirectiveNode lib schema directiveVisitors declared context type methodName"
    by (rule visitDirectiveNode_t_ref) simp
  show ?thesis
    using a b c by (simp add: visitorSelector_def)
qed

theorem extension_directives_are_appended_witness:
  "(case astNode ex_Book of None \<Rightarrow> Some [] | Some node \<Rightarrow> directives node)
     = Some [ex_upperNode, ex_tagNode ''a''] \<and>
   map directives (case extensionASTNodes ex_Book of None \<Rightarrow> [] | Some exts \<Rightarrow> exts)
     = map Some [[ex_tagNode ''b'', ex_deprecatedNode]] \<and>
   collectDirectiveNodes ex_Book
     = Inr (map Some ([ex_upperNode, ex_tagNode ''a''] @ concat [[ex_tagNode ''b'', ex_deprecatedNode]])) \<and>
   visitorSelector ex_lib ex_schema ex_visitors ex_declared 0 ex_Book ''visitObject'' ex_state
     = visitorSelector ex_lib ex_schema ex_visitors ex_declared 0
         (ex_Book\<lparr> astNode := Some \<lparr> directives =
                       Some ([ex_upperNode, ex_tagNode ''a'']
                             @ concat [[ex_tagNode ''b'', ex_deprecatedNode]]) \<rparr>,
                   extensionASTNodes := None \<rparr>)
         ''visitObject'' ex_state \<and>
   visitorSelector ex_lib ex_schema ex_visitors ex_declared 0 ex_Book ''visitObject'' ex_state
     = Inr ([ex_instance ''tag'' [(''name'', ''a'')] 1, ex_instance ''tag'' [(''name'', ''b'')] 1],
            \<lparr> createdVisitors =
                 [(''upper'', []), (''length'', []),
                  (''tag'', [ex_instance ''tag'' [(''name'', ''a'')] 1,
                             ex_instance ''tag'' [(''name'', ''b'')] 1])],
               events = [Constructed (ex_instance ''tag'' [(''name'', ''a'')] 1),
                         Constructed (ex_instance ''tag'' [(''name'', ''b'')] 1)] \<rparr>)"
proof -
  have a: "(case astNode ex_Book of None \<Rightarrow> Some [] | Some node \<Rightarrow> directives node)
     = Some [ex_upperNode, ex_tagNode ''a'']"
    by (simp add: ex_Book_def)
  have b: "map directives (case extensionASTNodes ex_Book of None \<Rightarrow> [] | Some exts \<Rightarrow> exts)
     = map Some [[ex_tagNode ''b'', ex_deprecatedNode]]"
    by (simp add: ex_Book_def)
  note inst = extension_directives_are_appended
                [OF a b, of ex_lib ex_schema ex_visitors ex_declared 0 "''visitObject''" ex_state]
  show ?thesis
    using a b inst [THEN conjunct1] inst [THEN conjunct2] ex_run_selector
    by (intro conjI)
qed

text \<open>A definition node without a \<^verbatim>\<open>directives\<close> array makes the selector raise.\<close>

lemma selector_raises_on_missing_directives:
  assumes "astNode type = Some node" and "directives node = None"
  shows "visitorSelector lib schema directiveVisitors declared context type methodName st
           = Inl TypeError"
  using assms by (simp add: visitorSelector_def collectDirectiveNodes_def)

text \<open>
  C10. For an element without \<^verbatim>\<open>astNode\<close> and without extension nodes the selector
  returns the empty list, without an exception and without a change of state.
\<close>

theorem element_without_ast_nodes_yields_nothing:
  assumes "astNode type = None"
      and "extensionASTNodes type = None \<or> extensionASTNodes type = Some []"
  shows "visitorSelector lib schema directiveVisitors declared context type methodName st
           = Inr ([], st)"
proof -
  have "collectDirectiveNodes type = Inr []"
    using assms by (auto simp: collectDirectiveNodes_def)
  then show ?thesis
    by (simp add: visitorSelector_def)
qed

theorem element_without_ast_nodes_yields_nothing_witness:
  "astNode ex_programmatic = None \<and>
   (extensionASTNodes ex_programmatic = None \<or> extensionASTNodes ex_programmatic = Some []) \<and>
   visitorSelector ex_lib ex_schema ex_visitors ex_declared 0 ex_programmatic ''visitObject''
     ex_state = Inr ([], ex_state)"
proof -
  have a: "astNode ex_programmatic = None"
    by (simp add: ex_programmatic_def)
  have b: "extensionASTNodes ex_programmatic = None \<or> extensionASTNodes ex_programmatic = Some []"
    by (simp add: ex_programmatic_def)
  show ?thesis
    using a b element_without_ast_nodes_yields_nothing
                [OF a b, of ex_lib ex_schema ex_visitors ex_declared 0 "''visitObject''" ex_state]
    by (intro conjI)
qed

section \<open>Properties of a dispatch pass\<close>

lemma visitSchema_invariant:
  assumes sel: "\<And>type methodName st visitors st'.
                  P st \<Longrightarrow> selector type methodName st = Inr (visitors, st') \<Longrightarrow> P st'"
      and inv: "\<And>st visitor methodName.
                  P st \<Longrightarrow> P (st\<lparr> events := events st @ [Invoked visitor methodName] \<rparr>)"
  shows "P st \<Longrightarrow> visitSchema selector walker st = Inr st' \<Longrightarrow> P st'"
proof (induction walker arbitrary: st)
  case Done
  then show ?case by simp
next
  case (Throw e)
  then show ?case by simp
next
  case (Offer type methodName continue)
  from Offer.prems(2) obtain visitors st1 where
      s: "selector type methodName st = Inr (visitors, st1)"
      and k: "visitSchema selector (continue visitors) st1 = Inr st'"
    by (auto split: sum.splits)
  have "P st1" using sel [OF Offer.prems(1) s] .
  then show ?case
    using Offer.IH [of "continue visitors" st1] k by blast
next
  case (Invoke visitor methodName continue)
  have "P (st\<lparr> events := events st @ [Invoked visitor methodName] \<rparr>)"
    using inv [OF Invoke.prems(1)] .
  moreover have "visitSchema selector continue
                   (st\<lparr> events := events st @ [Invoked visitor methodName] \<rparr>) = Inr st'"
    using Invoke.prems(2) by simp
  ultimately show ?case
    by (rule Invoke.IH)
qed

lemma map_of_fold_init:
  "map_of (fold (\<lambda>directiveName created. AList.update directiveName [] created) names acc) n
     = (if n \<in> set names then Some [] else map_of acc n)"
  by (induction names arbitrary: acc) (auto simp: update_conv')

lemma map_of_initialCreatedVisitors:
  "map_of (initialCreatedVisitors directiveVisitors) n
     = (if n \<in> fst ` set directiveVisitors then Some [] else None)"
  by (simp add: initialCreatedVisitors_def map_of_fold_init)

lemma keys_initialCreatedVisitors:
  "fst ` set (initialCreatedVisitors directiveVisitors) = fst ` set directiveVisitors"
proof -
  have "dom (map_of (initialCreatedVisitors directiveVisitors)) = fst ` set directiveVisitors"
    by (auto simp: dom_def map_of_initialCreatedVisitors)
  then show ?thesis
    by (simp add: dom_map_of_conv_image_fst)
qed

lemma dispatch_invariant:
  assumes run: "visitSchema (visitorSelector lib schema directiveVisitors declared context) walker
               \<lparr> createdVisitors = initialCreatedVisitors directiveVisitors, events = [] \<rparr>
             = Inr st"
  shows "fst ` set (createdVisitors st) = fst ` set directiveVisitors \<and>
         (\<forall>n\<in>fst ` set directiveVisitors.
            map_of (createdVisitors st) n
              = Some (filter (\<lambda>v. v_name v = n) (constructed (events st)))) \<and>
         (\<forall>v\<in>set (constructed (events st)). v_context v = context \<and> v_schema v = schema)"
proof -
  let ?K = "fst ` set directiveVisitors"
  let ?P = "\<lambda>st. fst ` set (createdVisitors st) = ?K \<and>
         (\<forall>n\<in>?K. map_of (createdVisitors st) n
              = Some (filter (\<lambda>v. v_name v = n) (constructed (events st)))) \<and>
         (\<forall>v\<in>set (constructed (events st)). v_context v = context \<and> v_schema v = schema)"
  have init: "?P \<lparr> createdVisitors = initialCreatedVisitors directiveVisitors, events = [] \<rparr>"
    by (simp add: keys_initialCreatedVisitors map_of_initialCreatedVisitors)
  have sel: "\<And>type methodName st visitors st'. ?P st \<Longrightarrow>
               visitorSelector lib schema directiveVisitors declared context type methodName st
                 = Inr (visitors, st') \<Longrightarrow> ?P st'"
  proof -
    fix type methodName st visitors st'
    assume P: "?P st"
       and s: "visitorSelector lib schema directiveVisitors declared context type methodName st
                 = Inr (visitors, st')"
    from visitorSelector_Inr [OF s] obtain directiveNodes where
        vs: "visitors = instancesOf
               (visitDirectiveNode lib schema directiveVisitors declared context type methodName)
               directiveNodes"
        and ev: "events st' = events st @ map Constructed visitors"
        and pc: "pushCreated visitors (createdVisitors st) = Inr (createdVisitors st')"
      by blast
    have con: "constructed (events st') = constructed (events st) @ visitors"
      by (simp add: ev constructed_append constructed_map_Constructed)
    have fields: "\<forall>v\<in>set visitors. v_context v = context \<and> v_schema v = schema"
    proof
      fix v assume "v \<in> set visitors"
      then obtain directiveNode where
          "visitDirectiveNode lib schema directiveVisitors declared context type methodName
             directiveNode = Inr (Some v)"
        unfolding vs by (blast dest: instancesOf_body)
      from visitDirectiveNode_Some [OF this] obtain args where
          "v = new_SchemaDirectiveVisitor
                 \<lparr> c_name = dn_name directiveNode, c_args = args,
                   c_visitedType = t_ref type, c_schema = schema, c_context = context \<rparr>"
        by blast
      then show "v_context v = context \<and> v_schema v = schema"
        by (simp add: new_SchemaDirectiveVisitor_def)
    qed
    from pushCreated_Inr [OF pc] have
        keys: "fst ` set (createdVisitors st') = fst ` set (createdVisitors st)"
        and maps: "\<And>n. map_of (createdVisitors st') n =
                     map_option (\<lambda>list. list @ filter (\<lambda>v. v_name v = n) visitors)
                       (map_of (createdVisitors st) n)"
      by blast+
    show "?P st'"
      using P keys maps con fields by auto
  qed
  have inv: "\<And>st visitor methodName. ?P st \<Longrightarrow>
               ?P (st\<lparr> events := events st @ [Invoked visitor methodName] \<rparr>)"
    by (simp add: constructed_append)
  show ?thesis
    using visitSchema_invariant [where P = ?P, OF sel inv init run] .
qed

lemma visitSchemaDirectives_Inr:
  assumes "visitSchemaDirectives lib walker schema directiveVisitors contextArg heap
             = Inr (st, heap')"
  shows "\<exists>declared context.
           defaultContext contextArg heap = (context, heap') \<and>
           getDeclaredDirectives schema directiveVisitors = Inr declared \<and>
           visitSchema (visitorSelector lib schema directiveVisitors declared context) walker
               \<lparr> createdVisitors = initialCreatedVisitors directiveVisitors, events = [] \<rparr>
             = Inr st"
  using assms
  by (auto simp: visitSchemaDirectives_def split: prod.splits sum.splits)

text \<open>The pass over the example schema, with the context argument left out.\<close>

lemma ex_run:
  "visitSchemaDirectives ex_lib ex_walker ex_schema ex_visitors None [] = Inr (ex_final, [[]])"
  by code_simp

text \<open>
  C6. The object that \<^verbatim>\<open>visitSchemaDirectives\<close> returns has exactly the keys of the
  visitor mapping; each starts as the empty list; the list under a name is the
  sequence of the instances of that name in the order of their construction during
  the walk, so every instance in the list under \<open>n\<close> has the name \<open>n\<close>.
\<close>

theorem created_visitors_by_name_in_order:
  fixes st :: "('val, 'ad) dispatchState"
  assumes "visitSchemaDirectives lib walker schema directiveVisitors contextArg heap
             = Inr (st, heap')"
  shows "fst ` set (createdVisitors st) = fst ` set directiveVisitors \<and>
         (\<forall>n. map_of (initialCreatedVisitors directiveVisitors) n
                = (if n \<in> fst ` set directiveVisitors
                   then Some ([] :: ('val, 'ad) SchemaDirectiveVisitor list) else None)) \<and>
         (\<forall>n\<in>fst ` set directiveVisitors.
            map_of (createdVisitors st) n
              = Some (filter (\<lambda>v. v_name v = n) (constructed (events st)))) \<and>
         (\<forall>n visitors. map_of (createdVisitors st) n = Some visitors \<longrightarrow>
            (\<forall>v\<in>set visitors. v_name v = n))"
proof -
  from visitSchemaDirectives_Inr [OF assms] obtain declared ctx where
      run: "visitSchema (visitorSelector lib schema directiveVisitors declared ctx) walker
               \<lparr> createdVisitors = initialCreatedVisitors directiveVisitors, events = [] \<rparr>
             = Inr st"
    by blast
  note inv = dispatch_invariant [OF run]
  have keys: "fst ` set (createdVisitors st) = fst ` set directiveVisitors"
    using inv by blast
  have lists: "\<forall>n\<in>fst ` set directiveVisitors.
            map_of (createdVisitors st) n
              = Some (filter (\<lambda>v. v_name v = n) (constructed (events st)))"
    using inv by blast
  have names: "\<forall>n visitors. map_of (createdVisitors st) n = Some visitors \<longrightarrow>
            (\<forall>v\<in>set visitors. v_name v = n)"
  proof (intro allI impI ballI)
    fix n visitors v
    assume m: "map_of (createdVisitors st) n = Some visitors" and v: "v \<in> set visitors"
    have "n \<in> fst ` set (createdVisitors st)"
      using m by (metis map_of_eq_None_iff option.distinct(1))
    then have "n \<in> fst ` set directiveVisitors" using keys by simp
    then have "map_of (createdVisitors st) n
                 = Some (filter (\<lambda>v. v_name v = n) (constructed (events st)))"
      using lists by blast
    then have "visitors = filter (\<lambda>v. v_name v = n) (constructed (events st))"
      using m by simp
    then show "v_name v = n" using v by simp
  qed
  have init: "\<forall>n. map_of (initialCreatedVisitors directiveVisitors) n
                = (if n \<in> fst ` set directiveVisitors
                   then Some ([] :: ('val, 'ad) SchemaDirectiveVisitor list) else None)"
    by (simp add: map_of_initialCreatedVisitors)
  show ?thesis
    using keys init lists names by (intro conjI)
qed

theorem created_visitors_by_name_in_order_witness:
  "visitSchemaDirectives ex_lib ex_walker ex_schema ex_visitors None [] = Inr (ex_final, [[]]) \<and>
   fst ` set (createdVisitors ex_final) = fst ` set ex_visitors \<and>
   ''tag'' \<in> fst ` set ex_visitors \<and>
   map_of (createdVisitors ex_final) ''tag''
     = Some (filter (\<lambda>v. v_name v = ''tag'') (constructed (events ex_final))) \<and>
   map_of (createdVisitors ex_final) ''tag''
     = Some [ex_instance ''tag'' [(''name'', ''a'')] 1, ex_instance ''tag'' [(''name'', ''b'')] 1] \<and>
   v_name (ex_instance ''tag'' [(''name'', ''a'')] 1) = ''tag'' \<and>
   v_name (ex_instance ''tag'' [(''name'', ''b'')] 1) = ''tag''"
proof -
  note inst = created_visitors_by_name_in_order [OF ex_run]
  have key: "''tag'' \<in> fst ` set ex_visitors"
    by (simp add: ex_visitors_def)
  have look: "map_of (createdVisitors ex_final) ''tag''
     = Some [ex_instance ''tag'' [(''name'', ''a'')] 1, ex_instance ''tag'' [(''name'', ''b'')] 1]"
    by (simp add: ex_final_def)
  have a: "fst ` set (createdVisitors ex_final) = fst ` set ex_visitors"
    using inst by (rule conjunct1)
  have b: "map_of (createdVisitors ex_final) ''tag''
     = Some (filter (\<lambda>v. v_name v = ''tag'') (constructed (events ex_final)))"
    using inst [THEN conjunct2, THEN conjunct2, THEN conjunct1] key by (rule bspec)
  have c: "\<forall>v\<in>set [ex_instance ''tag'' [(''name'', ''a'')] 1,
                      ex_instance ''tag'' [(''name'', ''b'')] 1]. v_name v = ''tag''"
    using inst [THEN conjunct2, THEN conjunct2, THEN conjunct2, rule_format, OF look] by blast
  have c1: "v_name (ex_instance ''tag'' [(''name'', ''a'')] 1) = ''tag''"
    using c by simp
  have c2: "v_name (ex_instance ''tag'' [(''name'', ''b'')] 1) = ''tag''"
    using c by simp
  show ?thesis
    using ex_run a key b look c1 c2 by (intro conjI)
qed

text \<open>
  C8. All instances of one call of \<^verbatim>\<open>visitSchemaDirectives\<close> hold the same context
  reference: the one given, or, when none is given, the address of one new empty
  object allocated on entry. The constructor copies name, arguments, visited type,
  schema and context from its configuration, which for an occurrence are the
  directive name, the resolved arguments, the element, the schema and that context.
\<close>

theorem instances_share_context_and_keep_constructor_values:
  assumes "visitSchemaDirectives lib walker schema directiveVisitors contextArg heap
             = Inr (st, heap')"
  shows "(\<exists>context.
            defaultContext contextArg heap = (context, heap') \<and>
            (\<forall>v\<in>set (constructed (events st)). v_context v = context \<and> v_schema v = schema) \<and>
            (\<forall>n visitors. map_of (createdVisitors st) n = Some visitors \<longrightarrow>
               (\<forall>v\<in>set visitors. v_context v = context \<and> v_schema v = schema)) \<and>
            (\<forall>given. contextArg = Some given \<longrightarrow> context = given \<and> heap' = heap) \<and>
            (contextArg = None \<longrightarrow>
               context = length heap \<and> heap' = heap @ [[]] \<and> heap' ! context = [])) \<and>
         (\<forall>config :: ('val, 'ad) visitorConfig.
            v_name (new_SchemaDirectiveVisitor config) = c_name config \<and>
            v_args (new_SchemaDirectiveVisitor config) = c_args config \<and>
            v_visitedType (new_SchemaDirectiveVisitor config) = c_visitedType config \<and>
            v_schema (new_SchemaDirectiveVisitor config) = c_schema config \<and>
            v_context (new_SchemaDirectiveVisitor config) = c_context config) \<and>
         (\<forall>declared context type methodName directiveNode visitor.
            visitDirectiveNode lib schema directiveVisitors declared context type methodName
              directiveNode = Inr (Some visitor) \<longrightarrow>
            v_name visitor = dn_name directiveNode \<and> v_visitedType visitor = t_ref type \<and>
            v_schema visitor = schema \<and> v_context visitor = context)"
proof -
  from visitSchemaDirectives_Inr [OF assms] obtain declared ctx where
      dc: "defaultContext contextArg heap = (ctx, heap')"
      and run: "visitSchema (visitorSelector lib schema directiveVisitors declared ctx) walker
               \<lparr> createdVisitors = initialCreatedVisitors directiveVisitors, events = [] \<rparr>
             = Inr st"
    by blast
  note inv = dispatch_invariant [OF run]
  have all: "\<forall>v\<in>set (constructed (events st)). v_context v = ctx \<and> v_schema v = schema"
    using inv by blast
  have lists: "\<forall>n visitors. map_of (createdVisitors st) n = Some visitors \<longrightarrow>
               (\<forall>v\<in>set visitors. v_context v = ctx \<and> v_schema v = schema)"
  proof (intro allI impI ballI)
    fix n visitors v
    assume m: "map_of (createdVisitors st) n = Some visitors" and v: "v \<in> set visitors"
    have "n \<in> fst ` set (createdVisitors st)"
      using m by (metis map_of_eq_None_iff option.distinct(1))
    then have "n \<in> fst ` set directiveVisitors" using inv by simp
    then have "map_of (createdVisitors st) n
                 = Some (filter (\<lambda>v. v_name v = n) (constructed (events st)))"
      using inv by blast
    then have "visitors = filter (\<lambda>v. v_name v = n) (constructed (events st))"
      using m by simp
    then have "v \<in> set (constructed (events st))" using v by simp
    then show "v_context v = ctx \<and> v_schema v = schema" using all by blast
  qed
  have given: "\<forall>given. contextArg = Some given \<longrightarrow> ctx = given \<and> heap' = heap"
    using dc by (auto simp: defaultContext_def)
  have fresh: "contextArg = None \<longrightarrow>
               ctx = length heap \<and> heap' = heap @ [[]] \<and> heap' ! ctx = []"
    using dc by (auto simp: defaultContext_def)
  have ctor: "\<forall>config :: ('val, 'ad) visitorConfig.
            v_name (new_SchemaDirectiveVisitor config) = c_name config \<and>
            v_args (new_SchemaDirectiveVisitor config) = c_args config \<and>
            v_visitedType (new_SchemaDirectiveVisitor config) = c_visitedType config \<and>
            v_schema (new_SchemaDirectiveVisitor config) = c_schema config \<and>
            v_context (new_SchemaDirectiveVisitor config) = c_context config"
    by (simp add: new_SchemaDirectiveVisitor_def)
  have occ: "\<forall>declared context type methodName directiveNode visitor.
            visitDirectiveNode lib schema directiveVisitors declared context type methodName
              directiveNode = Inr (Some visitor) \<longrightarrow>
            v_name visitor = dn_name directiveNode \<and> v_visitedType visitor = t_ref type \<and>
            v_schema visitor = schema \<and> v_context visitor = context"
  proof (intro allI impI)
    fix declared c type methodName directiveNode visitor
    assume "visitDirectiveNode lib schema directiveVisitors declared c type methodName
              directiveNode = Inr (Some visitor)"
    from visitDirectiveNode_Some [OF this] obtain args where
        "visitor = new_SchemaDirectiveVisitor
                 \<lparr> c_name = dn_name directiveNode, c_args = args,
                   c_visitedType = t_ref type, c_schema = schema, c_context = c \<rparr>"
      by blast
    then show "v_name visitor = dn_name directiveNode \<and> v_visitedType visitor = t_ref type \<and>
            v_schema visitor = schema \<and> v_context visitor = c"
      by (simp add: new_SchemaDirectiveVisitor_def)
  qed
  have shared: "\<exists>context.
            defaultContext contextArg heap = (context, heap') \<and>
            (\<forall>v\<in>set (constructed (events st)). v_context v = context \<and> v_schema v = schema) \<and>
            (\<forall>n visitors. map_of (createdVisitors st) n = Some visitors \<longrightarrow>
               (\<forall>v\<in>set visitors. v_context v = context \<and> v_schema v = schema)) \<and>
            (\<forall>given. contextArg = Some given \<longrightarrow> context = given \<and> heap' = heap) \<and>
            (contextArg = None \<longrightarrow>
               context = length heap \<and> heap' = heap @ [[]] \<and> heap' ! context = [])"
    using dc all lists given fresh by (intro exI [where x = ctx] conjI)
  show ?thesis
    using shared ctor occ by (intro conjI)
qed

theorem instances_share_context_and_keep_constructor_values_witness:
  "visitSchemaDirectives ex_lib ex_walker ex_schema ex_visitors None [] = Inr (ex_final, [[]]) \<and>
   defaultContext None ([] :: string heap) = (0, [[]]) \<and>
   list_all (\<lambda>v. v_context v = 0 \<and> v_schema v = ex_schema) (constructed (events ex_final)) \<and>
   constructed (events ex_final)
     = [ex_instance ''tag'' [(''name'', ''a'')] 1, ex_instance ''tag'' [(''name'', ''b'')] 1,
        ex_instance ''upper'' [] 2, ex_instance ''length'' [(''max'', ''50'')] 2] \<and>
   ([[]] :: string heap) ! 0 = []"
proof -
  from instances_share_context_and_keep_constructor_values [OF ex_run, THEN conjunct1]
  obtain ctx where
      dc: "defaultContext None ([] :: string heap) = (ctx, [[]])"
      and all: "\<forall>v\<in>set (constructed (events ex_final)).
                  v_context v = ctx \<and> v_schema v = ex_schema"
      and fresh: "(None :: nat option) = None \<longrightarrow>
                  ctx = length ([] :: string heap) \<and> [[]] = ([] :: string heap) @ [[]] \<and>
                  ([[]] :: string heap) ! ctx = []"
    by blast
  have zero: "ctx = 0"
    using fresh by simp
  have a: "defaultContext None ([] :: string heap) = (0, [[]])"
    using dc zero by simp
  have b: "list_all (\<lambda>v. v_context v = 0 \<and> v_schema v = ex_schema)
             (constructed (events ex_final))"
    using all zero by (simp add: list_all_iff)
  have c: "constructed (events ex_final)
     = [ex_instance ''tag'' [(''name'', ''a'')] 1, ex_instance ''tag'' [(''name'', ''b'')] 1,
        ex_instance ''upper'' [] 2, ex_instance ''length'' [(''max'', ''50'')] 2]"
    by (simp add: ex_final_def)
  have d: "([[]] :: string heap) ! 0 = []"
    using fresh zero by simp
  show ?thesis
    using ex_run a b c d by (intro conjI)
qed

text \<open>
  C9. The selector does not call a handler. For an element it constructs the instances
  of all occurrences that yield one, in the order of the occurrences, appends them to
  the lists of \<^verbatim>\<open>createdVisitors\<close> and returns them, and its part of the log consists of
  these constructions alone; the walker goes on with the returned instances only
  after that, so a handler can run on an instance only after every occurrence on the
  element has been processed.
\<close>

theorem selector_constructs_all_instances_then_returns:
  assumes "visitorSelector lib schema directiveVisitors declared context type methodName st
             = Inr (visitors, st')"
  shows "(\<exists>directiveNodes.
            collectDirectiveNodes type = Inr directiveNodes \<and>
            visitors = instancesOf
                         (visitDirectiveNode lib schema directiveVisitors declared context type
                            methodName) directiveNodes) \<and>
         events st' = events st @ map Constructed visitors \<and>
         pushCreated visitors (createdVisitors st) = Inr (createdVisitors st') \<and>
         (\<forall>continue.
            visitSchema (visitorSelector lib schema directiveVisitors declared context)
              (Offer type methodName continue) st
            = visitSchema (visitorSelector lib schema directiveVisitors declared context)
                (continue visitors) st')"
proof -
  from visitorSelector_Inr [OF assms] obtain directiveNodes where
      n: "collectDirectiveNodes type = Inr directiveNodes"
      and vs: "visitors = instancesOf
                 (visitDirectiveNode lib schema directiveVisitors declared context type
                    methodName) directiveNodes"
      and ev: "events st' = events st @ map Constructed visitors"
      and pc: "pushCreated visitors (createdVisitors st) = Inr (createdVisitors st')"
    by blast
  have first: "\<exists>directiveNodes.
            collectDirectiveNodes type = Inr directiveNodes \<and>
            visitors = instancesOf
                         (visitDirectiveNode lib schema directiveVisitors declared context type
                            methodName) directiveNodes"
    using n vs by blast
  have walk: "\<forall>continue.
            visitSchema (visitorSelector lib schema directiveVisitors declared context)
              (Offer type methodName continue) st
            = visitSchema (visitorSelector lib schema directiveVisitors declared context)
                (continue visitors) st'"
    using assms by simp
  show ?thesis
    using first ev pc walk by (intro conjI)
qed

theorem selector_constructs_all_instances_then_returns_witness:
  "visitorSelector ex_lib ex_schema ex_visitors ex_declared 0 ex_Book ''visitObject'' ex_state
     = Inr ([ex_instance ''tag'' [(''name'', ''a'')] 1, ex_instance ''tag'' [(''name'', ''b'')] 1],
            \<lparr> createdVisitors =
                 [(''upper'', []), (''length'', []),
                  (''tag'', [ex_instance ''tag'' [(''name'', ''a'')] 1,
                             ex_instance ''tag'' [(''name'', ''b'')] 1])],
               events = [Constructed (ex_instance ''tag'' [(''name'', ''a'')] 1),
                         Constructed (ex_instance ''tag'' [(''name'', ''b'')] 1)] \<rparr>) \<and>
   events \<lparr> createdVisitors =
                 [(''upper'', []), (''length'', []),
                  (''tag'', [ex_instance ''tag'' [(''name'', ''a'')] 1,
                             ex_instance ''tag'' [(''name'', ''b'')] 1])],
               events = [Constructed (ex_instance ''tag'' [(''name'', ''a'')] 1),
                         Constructed (ex_instance ''tag'' [(''name'', ''b'')] 1)] \<rparr>
     = events ex_state
       @ map Constructed [ex_instance ''tag'' [(''name'', ''a'')] 1,
                          ex_instance ''tag'' [(''name'', ''b'')] 1]"
  using ex_run_selector
        selector_constructs_all_instances_then_returns
          [OF ex_run_selector, THEN conjunct2, THEN conjunct1]
  by (intro conjI)

text \<open>
  Handler calls as the specification words them do not hold of the selector. On the
  type of the example, when the selector has processed the occurrences, the log holds
  the construction of the first \<^verbatim>\<open>@tag\<close> instance directly followed by the construction
  of the second, with no handler call on the first.
\<close>

theorem handler_not_invoked_upon_creation:
  "map_sum id (invokedUponCreation \<circ> events \<circ> snd)
     (visitorSelector ex_lib ex_schema ex_visitors ex_declared 0 ex_Book ''visitObject'' ex_state)
   = Inr False"
  by code_simp

text \<open>
  Nor can a walker repair this. Whatever the walker does once the selector has returned
  the instances of the type, and whatever the context, the log of a pass that offers
  the type begins with the two constructions.
\<close>

lemma ex_declared_resolved: "getDeclaredDirectives ex_schema ex_visitors = Inr ex_declared"
  by code_simp

lemma ex_selector_any_context:
  "visitorSelector ex_lib ex_schema ex_visitors ex_declared c ex_Book ''visitObject'' ex_state
     = Inr ([(ex_instance ''tag'' [(''name'', ''a'')] 1)\<lparr> v_context := c \<rparr>,
             (ex_instance ''tag'' [(''name'', ''b'')] 1)\<lparr> v_context := c \<rparr>],
            \<lparr> createdVisitors =
                 [(''upper'', []), (''length'', []),
                  (''tag'', [(ex_instance ''tag'' [(''name'', ''a'')] 1)\<lparr> v_context := c \<rparr>,
                             (ex_instance ''tag'' [(''name'', ''b'')] 1)\<lparr> v_context := c \<rparr>])],
               events = [Constructed ((ex_instance ''tag'' [(''name'', ''a'')] 1)\<lparr> v_context := c \<rparr>),
                         Constructed ((ex_instance ''tag'' [(''name'', ''b'')] 1)\<lparr> v_context := c \<rparr>)] \<rparr>)"
  by (simp add: visitorSelector_def collectDirectiveNodes_def concatenated_def ex_Book_def
        visitDirectiveNode_def ex_visitors_def ex_upperNode_def ex_tagNode_def
        ex_deprecatedNode_def ex_fieldVisitor_def ex_objectVisitor_def implementsVisitorMethod_def
        ex_declared_def untypedArguments_def ex_lib_def new_SchemaDirectiveVisitor_def
        ex_instance_def ex_state_def initialCreatedVisitors_def)

lemma visitSchema_events_prefix:
  assumes "visitSchema (visitorSelector lib schema directiveVisitors declared context) walker st
             = Inr st'"
  shows "\<exists>suffix. events st' = events st @ suffix"
proof -
  let ?P = "\<lambda>s. \<exists>suffix. events s = events st @ suffix"
  have sel: "\<And>type methodName s visitors s'. ?P s \<Longrightarrow>
               visitorSelector lib schema directiveVisitors declared context type methodName s
                 = Inr (visitors, s') \<Longrightarrow> ?P s'"
    by (auto dest!: visitorSelector_Inr)
  have inv: "\<And>s visitor methodName. ?P s \<Longrightarrow>
               ?P (s\<lparr> events := events s @ [Invoked visitor methodName] \<rparr>)"
    by auto
  have init: "?P st" by simp
  show ?thesis
    using visitSchema_invariant [where P = ?P, OF sel inv init assms] .
qed

lemma no_walker_makes_the_handler_run_upon_creation:
  assumes "visitSchemaDirectives ex_lib (Offer ex_Book ''visitObject'' continue) ex_schema
             ex_visitors contextArg heap = Inr (st, heap')"
  shows "\<not> invokedUponCreation (events st)"
proof -
  from visitSchemaDirectives_Inr [OF assms] obtain declared c where
      d: "getDeclaredDirectives ex_schema ex_visitors = Inr declared"
      and run: "visitSchema (visitorSelector ex_lib ex_schema ex_visitors declared c)
                  (Offer ex_Book ''visitObject'' continue)
                  \<lparr> createdVisitors = initialCreatedVisitors ex_visitors, events = [] \<rparr>
                = Inr st"
    by blast
  have declared: "declared = ex_declared"
    using d by (simp add: ex_declared_resolved)
  let ?a = "(ex_instance ''tag'' [(''name'', ''a'')] 1)\<lparr> v_context := c \<rparr>"
  let ?b = "(ex_instance ''tag'' [(''name'', ''b'')] 1)\<lparr> v_context := c \<rparr>"
  obtain st1 where
      rest: "visitSchema (visitorSelector ex_lib ex_schema ex_visitors ex_declared c)
               (continue [?a, ?b]) st1 = Inr st"
      and ev1: "events st1 = [Constructed ?a, Constructed ?b]"
    using run ex_selector_any_context [of c]
    by (simp add: declared ex_state_def)
  from visitSchema_events_prefix [OF rest] obtain suffix where
      "events st = [Constructed ?a, Constructed ?b] @ suffix"
    using ev1 by auto
  then show ?thesis by simp
qed

text \<open>With the walker of the example the handler calls on the instances of an element
  come after the constructions of all of them.\<close>

lemma handler_invoked_after_all_instances_of_the_element:
  "map_sum id (events \<circ> fst)
     (visitSchemaDirectives ex_lib ex_walker ex_schema ex_visitors None [])
   = Inr [Constructed (ex_instance ''tag'' [(''name'', ''a'')] 1),
          Constructed (ex_instance ''tag'' [(''name'', ''b'')] 1),
          Invoked (ex_instance ''tag'' [(''name'', ''a'')] 1) ''visitObject'',
          Invoked (ex_instance ''tag'' [(''name'', ''b'')] 1) ''visitObject'',
          Constructed (ex_instance ''upper'' [] 2),
          Constructed (ex_instance ''length'' [(''max'', ''50'')] 2),
          Invoked (ex_instance ''upper'' [] 2) ''visitFieldDefinition'',
          Invoked (ex_instance ''length'' [(''max'', ''50'')] 2) ''visitFieldDefinition'']"
  by (simp add: ex_run ex_final_def)

end
